theory Spec2Isabelle
  imports Complex_Main "HOL-Library.Char_ord" "HOL-Library.List_Lexorder"
begin

section \<open>The JavaScript runtime, as far as the program uses it\<close>

text \<open>
  The repository holds three variants of one browser application, a weight journal:
  \<^verbatim>\<open>src/unnamed/part_000\<close> (date picker and Save button), \<^verbatim>\<open>src/app.js\<close> (adds
  the selected day and swipe navigation) and \<^verbatim>\<open>src/unnamed/part_001\<close> (auto-save,
  drag-follow swipes, 7-day chart). The functions \<^verbatim>\<open>todayISODate\<close>, \<^verbatim>\<open>shiftISO\<close>,
  \<^verbatim>\<open>isFutureISODate\<close>, \<^verbatim>\<open>loadEntries\<close>, \<^verbatim>\<open>upsertEntry\<close> and the weight parser have the
  same text in every variant and are embedded once.

  Conventions of the embedding.
  \<^item> A JavaScript string is a \<^typ>\<open>string\<close>: a list of code units below 256.
  \<^item> A JavaScript number is an exact rational, or \<open>NaN\<close>, or an infinity: the
    arithmetic of the model is exact, the rounding of IEEE doubles is not modelled.
  \<^item> \<^verbatim>\<open>a.localeCompare(b)\<close> is the lexicographic order of the code units, which is
    the collation order on the strings of digits and hyphens the program produces.
  \<^item> \<^verbatim>\<open>null\<close> is \<open>None\<close>.
\<close>

subsection \<open>Strings\<close>

definition isWhiteSpace :: "char \<Rightarrow> bool" where
  "isWhiteSpace c = (of_char c \<in> {9, 10, 11, 12, 13, 32, 160 :: int})"

text \<open>\<^verbatim>\<open>String.prototype.trim\<close>.\<close>

definition trim :: "string \<Rightarrow> string" where
  "trim s = rev (dropWhile isWhiteSpace (rev (dropWhile isWhiteSpace s)))"

text \<open>\<^verbatim>\<open>s.replace(",", ".")\<close>: a string pattern replaces its first occurrence only.\<close>

fun replaceComma :: "string \<Rightarrow> string" where
  "replaceComma [] = []"
| "replaceComma (c # cs) = (if c = CHR '','' then CHR ''.'' # cs else c # replaceComma cs)"

text \<open>\<^verbatim>\<open>s.split(sep)\<close> for a separator of one character.\<close>

fun split :: "char \<Rightarrow> string \<Rightarrow> string list" where
  "split sep [] = [[]]"
| "split sep (c # cs) =
     (if c = sep then [] # split sep cs
      else (case split sep cs of p # ps \<Rightarrow> (c # p) # ps | [] \<Rightarrow> [[c]]))"

subsection \<open>Numbers\<close>

datatype jsnum = NaN | PosInfinity | NegInfinity | Finite rat

definition isDigit :: "char \<Rightarrow> bool" where
  "isDigit c = (48 \<le> (of_char c :: int) \<and> (of_char c :: int) \<le> 57)"

definition digitVal :: "char \<Rightarrow> int" where
  "digitVal c = of_char c - 48"

definition digitsValue :: "string \<Rightarrow> int" where
  "digitsValue ds = foldl (\<lambda>a c. 10 * a + digitVal c) 0 ds"

definition pow10 :: "int \<Rightarrow> rat" where
  "pow10 e = (if 0 \<le> e then 10 ^ nat e else 1 / 10 ^ nat (- e))"

text \<open>The grammar \<open>ExponentPart\<close> of a numeric string; \<open>None\<close> when the rest of the
  literal is not one.\<close>

definition exponentPart :: "string \<Rightarrow> int option" where
  "exponentPart r =
     (case r of
        [] \<Rightarrow> Some 0
      | c # t \<Rightarrow>
          if c = CHR ''e'' \<or> c = CHR ''E'' then
            (let neg = (case t of s # _ \<Rightarrow> s = CHR ''-'' | [] \<Rightarrow> False);
                 ds = (case t of s # u \<Rightarrow> if s = CHR ''+'' \<or> s = CHR ''-'' then u else t
                       | [] \<Rightarrow> [])
             in if ds \<noteq> [] \<and> list_all isDigit ds
                then Some (if neg then - digitsValue ds else digitsValue ds)
                else None)
          else None)"

text \<open>\<open>StrUnsignedDecimalLiteral\<close>: \<^verbatim>\<open>Infinity\<close>, or digits with an optional
  fraction and exponent.\<close>

definition strUnsignedDecimal :: "string \<Rightarrow> jsnum" where
  "strUnsignedDecimal s =
     (if s = ''Infinity'' then PosInfinity
      else
        let ip = takeWhile isDigit s; r1 = dropWhile isDigit s in
        (case r1 of
           c # r2 \<Rightarrow>
             if c = CHR ''.'' then
               (let fp = takeWhile isDigit r2; r3 = dropWhile isDigit r2 in
                if ip = [] \<and> fp = [] then NaN
                else (case exponentPart r3 of
                        None \<Rightarrow> NaN
                      | Some e \<Rightarrow>
                          Finite ((of_int (digitsValue ip)
                                   + of_int (digitsValue fp) / 10 ^ length fp) * pow10 e)))
             else if ip = [] then NaN
             else (case exponentPart r1 of
                     None \<Rightarrow> NaN
                   | Some e \<Rightarrow> Finite (of_int (digitsValue ip) * pow10 e))
         | [] \<Rightarrow> if ip = [] then NaN else Finite (of_int (digitsValue ip))))"

text \<open>\<open>NonDecimalIntegerLiteral\<close>: \<^verbatim>\<open>0x\<close>, \<^verbatim>\<open>0o\<close> and \<^verbatim>\<open>0b\<close> literals.\<close>

definition radixDigit :: "char \<Rightarrow> int option" where
  "radixDigit c =
     (let n = (of_char c :: int) in
      if 48 \<le> n \<and> n \<le> 57 then Some (n - 48)
      else if 97 \<le> n \<and> n \<le> 102 then Some (n - 87)
      else if 65 \<le> n \<and> n \<le> 70 then Some (n - 55)
      else None)"

definition radixValue :: "int \<Rightarrow> string \<Rightarrow> int option" where
  "radixValue b ds =
     (if ds \<noteq> [] \<and> list_all (\<lambda>c. case radixDigit c of Some v \<Rightarrow> v < b | None \<Rightarrow> False) ds
      then Some (foldl (\<lambda>a c. b * a + (case radixDigit c of Some v \<Rightarrow> v | None \<Rightarrow> 0)) 0 ds)
      else None)"

definition nonDecimalLiteral :: "string \<Rightarrow> int option" where
  "nonDecimalLiteral s =
     (case s of
        z # x # ds \<Rightarrow>
          if z \<noteq> CHR ''0'' then None
          else if x = CHR ''x'' \<or> x = CHR ''X'' then radixValue 16 ds
          else if x = CHR ''o'' \<or> x = CHR ''O'' then radixValue 8 ds
          else if x = CHR ''b'' \<or> x = CHR ''B'' then radixValue 2 ds
          else None
      | _ \<Rightarrow> None)"

definition negate :: "jsnum \<Rightarrow> jsnum" where
  "negate v = (case v of NaN \<Rightarrow> NaN | PosInfinity \<Rightarrow> NegInfinity
               | NegInfinity \<Rightarrow> PosInfinity | Finite q \<Rightarrow> Finite (- q))"

text \<open>\<^verbatim>\<open>Number(s)\<close> on a string: the conversion \<open>StringToNumber\<close>.\<close>

definition Number :: "string \<Rightarrow> jsnum" where
  "Number s =
     (let t = trim s in
      if t = [] then Finite 0
      else (case nonDecimalLiteral t of
              Some n \<Rightarrow> Finite (of_int n)
            | None \<Rightarrow>
                (case t of
                   c # u \<Rightarrow>
                     if c = CHR ''+'' then strUnsignedDecimal u
                     else if c = CHR ''-'' then negate (strUnsignedDecimal u)
                     else strUnsignedDecimal t
                 | [] \<Rightarrow> NaN)))"

text \<open>\<^verbatim>\<open>Math.round\<close>: the nearest integer, a tie going up.\<close>

definition Math_round :: "rat \<Rightarrow> int" where
  "Math_round x = \<lfloor>x + 1 / 2\<rfloor>"

text \<open>\<^verbatim>\<open>String(n)\<close> for an integer, and \<^verbatim>\<open>s.padStart(2, "0")\<close>.\<close>

function decimal :: "int \<Rightarrow> string" where
  "decimal n = (if n < 10 then [char_of (48 + n)]
                else decimal (n div 10) @ [char_of (48 + n mod 10)])"
  by pat_completeness auto
termination
  by (relation "measure nat") auto

definition intToString :: "int \<Rightarrow> string" where
  "intToString n = (if n < 0 then CHR ''-'' # decimal (- n) else decimal n)"

definition padStart2 :: "string \<Rightarrow> string" where
  "padStart2 s = replicate (2 - length s) (CHR ''0'') @ s"

text \<open>\<^verbatim>\<open>String(x)\<close> for a number: the sign, the integer part and the digits of
  the fraction (at most 17 of them). The exponent form that JavaScript uses for very
  large and very small numbers is not modelled.\<close>

fun fractionDigits :: "nat \<Rightarrow> rat \<Rightarrow> string" where
  "fractionDigits 0 r = []"
| "fractionDigits (Suc k) r =
     (if r = 0 then []
      else char_of (48 + \<lfloor>r * 10\<rfloor>) # fractionDigits k (r * 10 - of_int \<lfloor>r * 10\<rfloor>))"

definition numberToString :: "rat \<Rightarrow> string" where
  "numberToString q =
     (let a = \<bar>q\<bar>; i = \<lfloor>a\<rfloor>; f = a - of_int i in
      (if q < 0 then ''-'' else []) @ decimal i
      @ (if f = 0 then [] else ''.'' @ fractionDigits 17 f))"

text \<open>\<open>ToIntegerOrInfinity\<close> of a finite number: truncation towards zero.\<close>

definition toInteger :: "rat \<Rightarrow> int" where
  "toInteger q = (if 0 \<le> q then \<lfloor>q\<rfloor> else \<lceil>q\<rceil>)"

subsection \<open>Dates\<close>

text \<open>
  The program builds every \<^verbatim>\<open>Date\<close> at local midnight and reads only its year,
  month and day of the month, so a \<^verbatim>\<open>Date\<close> is modelled by these three fields (the
  month counted from 0, as \<^verbatim>\<open>getMonth\<close> does). An invalid \<^verbatim>\<open>Date\<close> is \<open>None\<close>. The
  time zone, daylight saving and the range limit of \<^verbatim>\<open>Date\<close> are not modelled.
\<close>

record jsdate =
  getFullYear :: int
  getMonth :: int
  getDate :: int

definition leapYear :: "int \<Rightarrow> bool" where
  "leapYear y = (y mod 4 = 0 \<and> (y mod 100 \<noteq> 0 \<or> y mod 400 = 0))"

definition daysInMonth :: "int \<Rightarrow> int \<Rightarrow> int" where
  "daysInMonth y m =
     (if m = 1 then (if leapYear y then 29 else 28)
      else if m = 3 \<or> m = 5 \<or> m = 8 \<or> m = 10 then 30 else 31)"

definition validDate :: "jsdate \<Rightarrow> bool" where
  "validDate dt =
     (0 \<le> getMonth dt \<and> getMonth dt \<le> 11 \<and> 1 \<le> getDate dt
      \<and> getDate dt \<le> daysInMonth (getFullYear dt) (getMonth dt))"

definition nextDay :: "jsdate \<Rightarrow> jsdate" where
  "nextDay dt =
     (if getDate dt < daysInMonth (getFullYear dt) (getMonth dt)
      then dt\<lparr>getDate := getDate dt + 1\<rparr>
      else if getMonth dt < 11 then dt\<lparr>getMonth := getMonth dt + 1, getDate := 1\<rparr>
      else \<lparr>getFullYear = getFullYear dt + 1, getMonth = 0, getDate = 1\<rparr>)"

definition prevDay :: "jsdate \<Rightarrow> jsdate" where
  "prevDay dt =
     (if 1 < getDate dt then dt\<lparr>getDate := getDate dt - 1\<rparr>
      else if 0 < getMonth dt
      then dt\<lparr>getMonth := getMonth dt - 1,
              getDate := daysInMonth (getFullYear dt) (getMonth dt - 1)\<rparr>
      else \<lparr>getFullYear = getFullYear dt - 1, getMonth = 11, getDate = 31\<rparr>)"

definition addDays :: "jsdate \<Rightarrow> int \<Rightarrow> jsdate" where
  "addDays dt k = (if 0 \<le> k then (nextDay ^^ nat k) dt else (prevDay ^^ nat (- k)) dt)"

text \<open>\<open>MakeDay(year, month, date)\<close>: the first day of the month, the month taken
  modulo 12 with the carry going to the year, moved by \<open>date - 1\<close> days.\<close>

definition makeDay :: "int \<Rightarrow> int \<Rightarrow> int \<Rightarrow> jsdate" where
  "makeDay y m d = addDays \<lparr>getFullYear = y + m div 12, getMonth = m mod 12, getDate = 1\<rparr> (d - 1)"

text \<open>\<^verbatim>\<open>new Date(y, m, d)\<close>: a year from 0 to 99 means 1900 + year.\<close>

definition newDateInt :: "int \<Rightarrow> int \<Rightarrow> int \<Rightarrow> jsdate" where
  "newDateInt y m d = makeDay (if 0 \<le> y \<and> y \<le> 99 then 1900 + y else y) m d"

definition newDate :: "jsnum \<Rightarrow> jsnum \<Rightarrow> jsnum \<Rightarrow> jsdate option" where
  "newDate y m d =
     (case y of
        Finite yq \<Rightarrow>
          (case m of
             Finite mq \<Rightarrow>
               (case d of
                  Finite dq \<Rightarrow> Some (newDateInt (toInteger yq) (toInteger mq) (toInteger dq))
                | _ \<Rightarrow> None)
           | _ \<Rightarrow> None)
      | _ \<Rightarrow> None)"

text \<open>\<^verbatim>\<open>dt.setDate(v)\<close>.\<close>

definition setDate :: "jsdate \<Rightarrow> int \<Rightarrow> jsdate" where
  "setDate dt v = makeDay (getFullYear dt) (getMonth dt) v"

text \<open>\<^verbatim>\<open>dt.getTime()\<close>: the milliseconds of the days since 1 January 1970
  (\<open>DayFromYear\<close> is the formula of the language standard). Only differences and
  comparisons of it are used.\<close>

definition dayFromYear :: "int \<Rightarrow> int" where
  "dayFromYear y =
     365 * (y - 1970) + (y - 1969) div 4 - (y - 1901) div 100 + (y - 1601) div 400"

definition daysBeforeMonth :: "int \<Rightarrow> int \<Rightarrow> int" where
  "daysBeforeMonth y m =
     [0, 31, 59, 90, 120, 151, 181, 212, 243, 273, 304, 334] ! nat m
     + (if 2 \<le> m \<and> leapYear y then 1 else 0)"

definition dayNumber :: "jsdate \<Rightarrow> int" where
  "dayNumber dt =
     dayFromYear (getFullYear dt) + daysBeforeMonth (getFullYear dt) (getMonth dt)
     + getDate dt - 1"

definition getTime :: "jsdate \<Rightarrow> int" where
  "getTime dt = 86400000 * dayNumber dt"

text \<open>\<open>m - 1\<close> on a number.\<close>

definition minusOne :: "jsnum \<Rightarrow> jsnum" where
  "minusOne v = (case v of Finite q \<Rightarrow> Finite (q - 1) | other \<Rightarrow> other)"

text \<open>The clock: the fields of \<^verbatim>\<open>new Date()\<close> and the value of \<^verbatim>\<open>Date.now()\<close>.\<close>

record clock =
  localDate :: jsdate
  dateNow :: int

section \<open>Date helpers\<close>

text \<open>The year, month and day of \<^verbatim>\<open>todayISODate\<close> and \<^verbatim>\<open>shiftISO\<close> as text.\<close>

definition formatISO :: "jsdate \<Rightarrow> string" where
  "formatISO dt =
     intToString (getFullYear dt) @ ''-'' @ padStart2 (intToString (getMonth dt + 1))
     @ ''-'' @ padStart2 (intToString (getDate dt))"

definition todayISODate :: "clock \<Rightarrow> string" where
  "todayISODate clk = formatISO (localDate clk)"

text \<open>\<^verbatim>\<open>const [y, m, d] = iso.split("-").map(Number); new Date(y, m - 1, d)\<close>. With
  fewer than three parts a field is \<^verbatim>\<open>undefined\<close> and the date invalid.\<close>

definition dateOfISO :: "string \<Rightarrow> jsdate option" where
  "dateOfISO isoD =
     (case map Number (split (CHR ''-'') isoD) of
        y # m # d # _ \<Rightarrow> newDate y (minusOne m) d
      | _ \<Rightarrow> None)"

text \<open>\<^verbatim>\<open>shiftISO(iso, deltaDays)\<close>; an invalid date prints as \<^verbatim>\<open>NaN-NaN-NaN\<close>.\<close>

definition shiftISO :: "string \<Rightarrow> int \<Rightarrow> string" where
  "shiftISO isoD deltaDays =
     (case dateOfISO isoD of
        None \<Rightarrow> ''NaN-NaN-NaN''
      | Some dt \<Rightarrow> formatISO (setDate dt (getDate dt + deltaDays)))"

text \<open>\<^verbatim>\<open>isFutureISODate(iso)\<close>. Its \<^verbatim>\<open>today\<close> is \<open>localMidnight\<close>; an invalid date
  has the time \<open>NaN\<close>, which is greater than nothing.\<close>

definition localMidnight :: "clock \<Rightarrow> jsdate" where
  "localMidnight clk =
     newDateInt (getFullYear (localDate clk)) (getMonth (localDate clk)) (getDate (localDate clk))"

definition isFutureISODate :: "clock \<Rightarrow> string \<Rightarrow> bool" where
  "isFutureISODate clk isoD =
     (case dateOfISO isoD of
        None \<Rightarrow> False
      | Some selected \<Rightarrow> getTime selected > getTime (localMidnight clk))"

text \<open>\<^verbatim>\<open>isoToMMDDYY(iso)\<close>: a part that the split does not give prints as
  \<^verbatim>\<open>undefined\<close>.\<close>

definition partText :: "string list \<Rightarrow> nat \<Rightarrow> string" where
  "partText ps i = (if i < length ps then ps ! i else ''undefined'')"

definition isoToMMDDYY :: "string \<Rightarrow> string" where
  "isoToMMDDYY isoD =
     (let ps = split (CHR ''-'') isoD in
      partText ps 1 @ ''.'' @ partText ps 2 @ ''.'' @ drop 2 (partText ps 0))"

section \<open>The weight parser\<close>

text \<open>\<^verbatim>\<open>parseWeight\<close> of \<^verbatim>\<open>part_001\<close>; \<^verbatim>\<open>parseWeightInput\<close> of the other two
  variants has the same statements with the two rejections written as two \<^verbatim>\<open>if\<close>s.\<close>

definition parseWeight :: "string \<Rightarrow> rat option" where
  "parseWeight raw =
     (let normalized = replaceComma (trim raw) in
      if normalized = [] then None
      else (case Number normalized of
              Finite n \<Rightarrow>
                if n \<le> 0 \<or> n > 1400 then None
                else Some (of_int (Math_round (n * 10)) / 10)
            | _ \<Rightarrow> None))"

definition parseWeightInput :: "string \<Rightarrow> rat option" where
  "parseWeightInput raw =
     (let normalized = replaceComma (trim raw) in
      if normalized = [] then None
      else (case Number normalized of
              Finite n \<Rightarrow>
                if n \<le> 0 \<or> n > 1400 then None
                else Some (of_int (Math_round (n * 10)) / 10)
            | _ \<Rightarrow> None))"

section \<open>The entry store\<close>

text \<open>An entry \<^verbatim>\<open>{ entryDate: "YYYY-MM-DD", weight: number, createdAt: number }\<close>.\<close>

record entry =
  entryDate :: string
  weight :: rat
  createdAt :: rat

text \<open>What \<^verbatim>\<open>JSON.parse\<close> returns. The item of \<^verbatim>\<open>localStorage\<close> is kept as the value
  it parses to; \<open>None\<close> is a missing or empty item and one that \<^verbatim>\<open>JSON.parse\<close>
  rejects: \<^verbatim>\<open>loadEntries\<close> answers \<^verbatim>\<open>[]\<close> to each of them.\<close>

datatype json =
  JNull | JBool bool | JNum rat | JStr string | JArr "json list" | JObj "(string \<times> json) list"

text \<open>The module state every variant has: \<^verbatim>\<open>let entries = []\<close> and the item
  \<^verbatim>\<open>localStorage[STORAGE_KEY]\<close>.\<close>

record store =
  entries :: "entry list"
  localStorage :: "json option"

text \<open>Truthiness of a parsed value, and the property read \<^verbatim>\<open>e.k\<close> (of the keys of
  a parsed object the last one wins; a value that is no object has none of the
  properties read here).\<close>

definition truthy :: "json \<Rightarrow> bool" where
  "truthy v = (case v of JNull \<Rightarrow> False | JBool b \<Rightarrow> b | JNum n \<Rightarrow> n \<noteq> 0
               | JStr s \<Rightarrow> s \<noteq> [] | _ \<Rightarrow> True)"

definition getProp :: "json \<Rightarrow> string \<Rightarrow> json option" where
  "getProp v k = (case v of JObj kvs \<Rightarrow> map_of (rev kvs) k | _ \<Rightarrow> None)"

definition validRecord :: "json \<Rightarrow> bool" where
  "validRecord e =
     (truthy e
      \<and> (case getProp e ''entryDate'' of Some (JStr _) \<Rightarrow> True | _ \<Rightarrow> False)
      \<and> (case getProp e ''weight'' of Some (JNum _) \<Rightarrow> True | _ \<Rightarrow> False))"

definition toEntry :: "int \<Rightarrow> json \<Rightarrow> entry" where
  "toEntry now e =
     \<lparr> entryDate = (case getProp e ''entryDate'' of Some (JStr d) \<Rightarrow> d | _ \<Rightarrow> []),
       weight = (case getProp e ''weight'' of Some (JNum w) \<Rightarrow> w | _ \<Rightarrow> 0),
       createdAt = (case getProp e ''createdAt'' of Some (JNum t) \<Rightarrow> t | _ \<Rightarrow> of_int now) \<rparr>"

text \<open>\<^verbatim>\<open>loadEntries()\<close>; \<open>now\<close> is \<^verbatim>\<open>Date.now()\<close>.\<close>

definition loadEntries :: "int \<Rightarrow> json option \<Rightarrow> entry list" where
  "loadEntries now raw =
     (case raw of
        Some (JArr parsed) \<Rightarrow> map (toEntry now) (filter validRecord parsed)
      | _ \<Rightarrow> [])"

definition stringify :: "entry list \<Rightarrow> json" where
  "stringify es =
     JArr (map (\<lambda>e. JObj [(''entryDate'', JStr (entryDate e)), (''weight'', JNum (weight e)),
                           (''createdAt'', JNum (createdAt e))]) es)"

definition saveEntries :: "'a store_scheme \<Rightarrow> 'a store_scheme" where
  "saveEntries s = s\<lparr>localStorage := Some (stringify (entries s))\<rparr>"

text \<open>\<^verbatim>\<open>sortEntries\<close> (\<^verbatim>\<open>sortByEntryDateAsc\<close> in \<^verbatim>\<open>app.js\<close>): \<^verbatim>\<open>Array.prototype.sort\<close>
  is stable, as \<^const>\<open>sort_key\<close> is.\<close>

definition sortEntries :: "entry list \<Rightarrow> entry list" where
  "sortEntries es = sort_key entryDate es"

definition findEntry :: "string \<Rightarrow> 'a store_scheme \<Rightarrow> entry option" where
  "findEntry isoD s = find (\<lambda>e. entryDate e = isoD) (entries s)"

text \<open>\<^verbatim>\<open>upsertEntry(iso, weight)\<close>; \<open>now\<close> is \<^verbatim>\<open>Date.now()\<close>.\<close>

definition upsertEntry :: "string \<Rightarrow> rat \<Rightarrow> int \<Rightarrow> 'a store_scheme \<Rightarrow> 'a store_scheme" where
  "upsertEntry isoD w now s =
     saveEntries
       (s\<lparr>entries :=
            sortEntries (filter (\<lambda>e. entryDate e \<noteq> isoD) (entries s)
                         @ [\<lparr>entryDate = isoD, weight = w, createdAt = of_int now\<rparr>])\<rparr>)"

section \<open>The chart window (\<^verbatim>\<open>part_001\<close>)\<close>

record weekSeries =
  labels :: "string list"
  seriesValues :: "rat option list"
  dataMin :: rat
  dataMax :: rat

text \<open>\<^verbatim>\<open>for (let i = 6; i >= 0; i--) days.push(shiftISO(endISO, -i))\<close>.\<close>

definition weekDays :: "string \<Rightarrow> string list" where
  "weekDays endISO = map (\<lambda>i. shiftISO endISO (- i)) [6, 5, 4, 3, 2, 1, 0]"

text \<open>\<^verbatim>\<open>new Map(entries.map(e => [e.entryDate, e.weight]))\<close>: of two pairs with one key
  the later one stays. The lookup is \<^verbatim>\<open>map.has(iso) ? map.get(iso) : null\<close>.\<close>

definition weightMap :: "entry list \<Rightarrow> string \<Rightarrow> rat option" where
  "weightMap es = map_of (rev (map (\<lambda>e. (entryDate e, weight e)) es))"

text \<open>The loop over the days, with its variable \<^verbatim>\<open>last\<close> (here \<open>lastSeen\<close>).\<close>

fun forwardFill :: "rat option \<Rightarrow> rat option list \<Rightarrow> rat option list" where
  "forwardFill lastSeen [] = []"
| "forwardFill lastSeen (v # vs) =
     (case v of
        Some x \<Rightarrow> Some x # forwardFill (Some x) vs
      | None \<Rightarrow> lastSeen # forwardFill lastSeen vs)"

text \<open>\<^verbatim>\<open>values.filter(v => typeof v === "number")\<close>.\<close>

definition numbersOf :: "rat option list \<Rightarrow> rat list" where
  "numbersOf vs = concat (map (\<lambda>v. case v of Some x \<Rightarrow> [x] | None \<Rightarrow> []) vs)"

text \<open>\<^verbatim>\<open>nums.length ? Math.min(...nums) : 0\<close> and the same for the maximum with 1.\<close>

definition minOr :: "rat \<Rightarrow> rat list \<Rightarrow> rat" where
  "minOr dflt nums = (case nums of [] \<Rightarrow> dflt | x # xs \<Rightarrow> fold min xs x)"

definition maxOr :: "rat \<Rightarrow> rat list \<Rightarrow> rat" where
  "maxOr dflt nums = (case nums of [] \<Rightarrow> dflt | x # xs \<Rightarrow> fold max xs x)"

text \<open>\<^verbatim>\<open>d.split("-")[2].replace(/^0/, "")\<close>. A day that \<^verbatim>\<open>shiftISO\<close> printed has
  three parts or more.\<close>

definition dayLabel :: "string \<Rightarrow> string" where
  "dayLabel d =
     (case split (CHR ''-'') d of
        _ # _ # x # _ \<Rightarrow> (case x of c # r \<Rightarrow> if c = CHR ''0'' then r else x | [] \<Rightarrow> [])
      | _ \<Rightarrow> [])"

definition getWeekSeries :: "string \<Rightarrow> 'a store_scheme \<Rightarrow> weekSeries" where
  "getWeekSeries endISO s =
     (let days = weekDays endISO;
          vals = forwardFill None (map (weightMap (entries s)) days);
          nums = numbersOf vals
      in \<lparr> labels = map dayLabel days, seriesValues = vals,
           dataMin = minOr 0 nums, dataMax = maxOr 1 nums \<rparr>)"

record axis =
  yMin :: rat
  yMax :: rat
  stepSize :: int

text \<open>\<^verbatim>\<open>computeAxisUpperThird(dataMin, dataMax)\<close>; its \<^verbatim>\<open>step\<close> is the \<^verbatim>\<open>stepSize\<close>
  of the chart.\<close>

definition computeAxisUpperThird :: "rat \<Rightarrow> rat \<Rightarrow> axis" where
  "computeAxisUpperThird dMin dMax =
     (let range0 = dMax - dMin;
          range = (if range0 < 1 then 1 else range0);
          top = dMax + range * (2 / 10);
          bottom = top - range * 3
      in \<lparr> yMin = bottom, yMax = top, stepSize = max 1 (Math_round (range / 2)) \<rparr>)"

text \<open>What \<^verbatim>\<open>renderChart\<close> hands to the chart library.\<close>

definition chartAxis :: "string \<Rightarrow> 'a store_scheme \<Rightarrow> axis" where
  "chartAxis endISO s =
     computeAxisUpperThird (dataMin (getWeekSeries endISO s)) (dataMax (getWeekSeries endISO s))"

text \<open>For the statements about the window: the weight the store holds for the
  \<open>i\<close>-th day of the window (counted from 0), if it holds one.\<close>

definition recorded :: "string \<Rightarrow> 'a store_scheme \<Rightarrow> nat \<Rightarrow> rat option" where
  "recorded endISO s i = weightMap (entries s) (weekDays endISO ! i)"

section \<open>The gesture recognisers\<close>

datatype direction = SwipeLeft | SwipeRight

datatype outcome = Commit direction | SnapBack

subsection \<open>\<^verbatim>\<open>addSwipe\<close> of \<^verbatim>\<open>part_001\<close>\<close>

datatype lockAxis = Horizontal | Vertical

text \<open>The variables of the closure. A touch is the pair \<^verbatim>\<open>(pageX, pageY)\<close>; an event
  brings the list \<^verbatim>\<open>changedTouches\<close>; the time is \<^verbatim>\<open>Date.now()\<close>.\<close>

record gesture =
  startX :: rat
  startY :: rat
  distX :: rat
  distY :: rat
  startTime :: int
  locked :: bool
  lockDir :: "lockAxis option"

definition gestureInit :: gesture where
  "gestureInit = \<lparr> startX = 0, startY = 0, distX = 0, distY = 0, startTime = 0,
                    locked = False, lockDir = None \<rparr>"

definition touchstart :: "(rat \<times> rat) list \<Rightarrow> int \<Rightarrow> gesture \<Rightarrow> gesture" where
  "touchstart changedTouches t g =
     (case changedTouches of
        [p] \<Rightarrow> \<lparr> startX = fst p, startY = snd p, distX = 0, distY = 0, startTime = t,
                  locked = False, lockDir = None \<rparr>
      | _ \<Rightarrow> g)"

text \<open>\<^verbatim>\<open>touchmove\<close>: the new variables, and the offset given to \<^verbatim>\<open>setTranslate\<close> when
  the gesture is locked to the horizontal axis.\<close>

definition touchmove :: "(rat \<times> rat) list \<Rightarrow> gesture \<Rightarrow> gesture \<times> rat option" where
  "touchmove changedTouches g =
     (case changedTouches of
        [p] \<Rightarrow>
          (let g1 = g\<lparr>distX := fst p - startX g, distY := snd p - startY g\<rparr> in
           if \<not> locked g1 \<and> \<bar>distX g1\<bar> < 10 \<and> \<bar>distY g1\<bar> < 10 then (g1, None)
           else
             (let g2 = (if \<not> locked g1
                        then g1\<lparr>locked := True,
                                 lockDir := Some (if \<bar>distX g1\<bar> > \<bar>distY g1\<bar>
                                                  then Horizontal else Vertical)\<rparr>
                        else g1)
              in (g2, if lockDir g2 = Some Horizontal then Some (distX g2) else None)))
      | _ \<Rightarrow> (g, None))"

text \<open>\<^verbatim>\<open>touchend\<close>, with \<^verbatim>\<open>threshold = 70\<close>, \<^verbatim>\<open>restraint = 90\<close> and
  \<^verbatim>\<open>allowedTime = 450\<close>: \<open>Commit dir\<close> is the call \<^verbatim>\<open>commitSwipe(dir)\<close>, \<open>SnapBack\<close>
  the call \<^verbatim>\<open>snapBack()\<close>.\<close>

definition touchend :: "int \<Rightarrow> gesture \<Rightarrow> outcome" where
  "touchend t g =
     (let elapsedTime = t - startTime g; absX = \<bar>distX g\<bar>; absY = \<bar>distY g\<bar> in
      if elapsedTime \<le> 450 \<and> absX \<ge> 70 \<and> absY \<le> 90
      then Commit (if distX g < 0 then SwipeLeft else SwipeRight)
      else SnapBack)"

definition touchcancel :: "gesture \<Rightarrow> outcome" where
  "touchcancel g = SnapBack"

text \<open>A whole gesture: one finger down at \<open>p\<close> at time \<open>t0\<close>, moved through the
  points \<open>ps\<close>, lifted at time \<open>t1\<close>.\<close>

definition moves :: "(rat \<times> rat) list \<Rightarrow> gesture \<Rightarrow> gesture" where
  "moves ps g = fold (\<lambda>p h. fst (touchmove [p] h)) ps g"

definition swipeGesture :: "gesture \<Rightarrow> rat \<times> rat \<Rightarrow> int \<Rightarrow> (rat \<times> rat) list \<Rightarrow> int \<Rightarrow> outcome" where
  "swipeGesture g p t0 ps t1 = touchend t1 (moves ps (touchstart [p] t0 g))"

text \<open>The day a committed swipe asks for: \<^verbatim>\<open>commitSwipe\<close> calls \<^verbatim>\<open>shiftDay(-1)\<close> for
  \<^verbatim>\<open>"right"\<close> and \<^verbatim>\<open>shiftDay(+1)\<close> otherwise.\<close>

definition swipeDelta :: "direction \<Rightarrow> int" where
  "swipeDelta dir = (if dir = SwipeRight then - 1 else 1)"

subsection \<open>\<^verbatim>\<open>addSwipeNavigation\<close> of \<^verbatim>\<open>app.js\<close>\<close>

text \<open>Its variables are the start point and \<^verbatim>\<open>active\<close>; a touch is
  \<^verbatim>\<open>(clientX, clientY)\<close>. The handlers read no clock. The result \<open>SnapBack\<close> stands for
  a return without navigation.\<close>

record swipeNav =
  navStartX :: rat
  navStartY :: rat
  active :: bool

definition swipeNavInit :: swipeNav where
  "swipeNavInit = \<lparr> navStartX = 0, navStartY = 0, active = False \<rparr>"

definition navTouchstart :: "(rat \<times> rat) list \<Rightarrow> swipeNav \<Rightarrow> swipeNav" where
  "navTouchstart touches g =
     (case touches of
        [p] \<Rightarrow> \<lparr> navStartX = fst p, navStartY = snd p, active = True \<rparr>
      | _ \<Rightarrow> g)"

definition navTouchend :: "(rat \<times> rat) list \<Rightarrow> swipeNav \<Rightarrow> swipeNav \<times> outcome" where
  "navTouchend changedTouches g =
     (if \<not> active g then (g, SnapBack)
      else
        (let endX = (case changedTouches of p # _ \<Rightarrow> fst p | [] \<Rightarrow> navStartX g);
             endY = (case changedTouches of p # _ \<Rightarrow> snd p | [] \<Rightarrow> navStartY g);
             dx = endX - navStartX g;
             dy = endY - navStartY g
         in (g\<lparr>active := False\<rparr>,
             if \<bar>dy\<bar> > 60 then SnapBack
             else if \<bar>dx\<bar> < 40 then SnapBack
             else if dx > 0 then Commit SwipeRight
             else Commit SwipeLeft)))"

section \<open>The pages\<close>

text \<open>
  The module state and the elements of the page that the handlers read back. What is
  only drawn (the date label, the colour of today, the chart, the list of recent
  entries) is left out; the chart data is \<^const>\<open>getWeekSeries\<close> and \<^const>\<open>chartAxis\<close>
  of the state. A timer that only delays a call is modelled by the call.
\<close>

datatype buttonState = Idle | Saved | Error

record page = store +
  weightInput :: string
  statusText :: string

record nav = page +
  selectedISO :: string

record app = nav +
  dateInput :: string
  saveButton :: buttonState

definition setStatus :: "string \<Rightarrow> 'a page_scheme \<Rightarrow> 'a page_scheme" where
  "setStatus t s = s\<lparr>statusText := t\<rparr>"

definition setSaveButtonState :: "buttonState \<Rightarrow> app \<Rightarrow> app" where
  "setSaveButtonState b s = s\<lparr>saveButton := b\<rparr>"

text \<open>A clock of the present time, and the order of two clocks by their day.\<close>

definition plausibleClock :: "clock \<Rightarrow> bool" where
  "plausibleClock clk = (validDate (localDate clk) \<and> 1970 \<le> getFullYear (localDate clk))"

definition notBefore :: "clock \<Rightarrow> clock \<Rightarrow> bool" where
  "notBefore clk clk' = (dayNumber (localDate clk) \<le> dayNumber (localDate clk'))"

subsection \<open>\<^verbatim>\<open>part_001\<close>: auto-save\<close>

definition autoSaveIfValid :: "bool \<Rightarrow> clock \<Rightarrow> nav \<Rightarrow> nav \<times> bool" where
  "autoSaveIfValid quiet clk s =
     (case parseWeight (weightInput s) of
        None \<Rightarrow>
          (if \<not> quiet \<and> trim (weightInput s) \<noteq> [] then setStatus ''Invalid weight.'' s else s,
           False)
      | Some w \<Rightarrow>
          (let s1 = upsertEntry (selectedISO s) w (dateNow clk) s in
           (if \<not> quiet
            then setStatus (''Saved '' @ numberToString w @ '' for ''
                            @ isoToMMDDYY (selectedISO s1) @ ''.'') s1
            else s1,
            True)))"

definition fillWeightForSelectedDate :: "nav \<Rightarrow> nav" where
  "fillWeightForSelectedDate s =
     s\<lparr>weightInput := (case findEntry (selectedISO s) s of
                         Some e \<Rightarrow> numberToString (weight e)
                       | None \<Rightarrow> [])\<rparr>"

text \<open>\<^verbatim>\<open>renderAll\<close> of \<^verbatim>\<open>part_001\<close>.\<close>

definition renderAll :: "nav \<Rightarrow> nav" where
  "renderAll s = fillWeightForSelectedDate s"

definition shiftDay :: "int \<Rightarrow> clock \<Rightarrow> nav \<Rightarrow> nav" where
  "shiftDay delta clk s =
     (let next = shiftISO (selectedISO s) delta in
      if isFutureISODate clk next then s
      else renderAll (s\<lparr>selectedISO := next\<rparr>))"

text \<open>The callback of \<^verbatim>\<open>commitSwipe(dir)\<close>.\<close>

definition commitSwipe :: "direction \<Rightarrow> clock \<Rightarrow> nav \<Rightarrow> nav" where
  "commitSwipe dir clk s = shiftDay (swipeDelta dir) clk (fst (autoSaveIfValid True clk s))"

definition seedMass :: "clock \<Rightarrow> entry list" where
  "seedMass clk =
     (let t = todayISODate clk in
      [\<lparr>entryDate = shiftISO t (- 6), weight = 1862 / 10, createdAt = of_int (dateNow clk)\<rparr>,
       \<lparr>entryDate = shiftISO t (- 4), weight = 1853 / 10, createdAt = of_int (dateNow clk)\<rparr>,
       \<lparr>entryDate = shiftISO t (- 2), weight = 1848 / 10, createdAt = of_int (dateNow clk)\<rparr>,
       \<lparr>entryDate = shiftISO t 0, weight = 1843 / 10, createdAt = of_int (dateNow clk)\<rparr>])"

text \<open>\<^verbatim>\<open>init\<close> of \<^verbatim>\<open>part_001\<close>, from the item of \<^verbatim>\<open>localStorage\<close>; the page starts
  with an empty field and an empty status line.\<close>

definition initMass :: "clock \<Rightarrow> json option \<Rightarrow> nav" where
  "initMass clk raw =
     (let s0 = \<lparr> entries = sortEntries (loadEntries (dateNow clk) raw), localStorage = raw,
                 weightInput = [], statusText = [], selectedISO = todayISODate clk \<rparr>;
          s1 = (if entries s0 = []
                then saveEntries (s0\<lparr>entries := sortEntries (seedMass clk)\<rparr>)
                else s0)
      in renderAll s1)"

text \<open>What happens to the page: the field is edited, the field loses the focus (the
  Enter key does that too), a swipe is committed.\<close>

datatype massEvent = Typed string | Blur | Swiped direction

definition stepMass :: "clock \<Rightarrow> massEvent \<Rightarrow> nav \<Rightarrow> nav" where
  "stepMass clk ev s =
     (case ev of
        Typed t \<Rightarrow> s\<lparr>weightInput := t\<rparr>
      | Blur \<Rightarrow> fst (autoSaveIfValid False clk s)
      | Swiped dir \<Rightarrow> commitSwipe dir clk s)"

inductive reachMass :: "json option \<Rightarrow> clock \<Rightarrow> nav \<Rightarrow> bool" for raw :: "json option" where
  start: "plausibleClock clk \<Longrightarrow> reachMass raw clk (initMass clk raw)"
| step: "reachMass raw clk s \<Longrightarrow> plausibleClock clk' \<Longrightarrow> notBefore clk clk' \<Longrightarrow>
         reachMass raw clk' (stepMass clk' ev s)"

subsection \<open>\<^verbatim>\<open>app.js\<close>: Save button, date picker and swipes\<close>

text \<open>\<^verbatim>\<open>renderAll\<close> of \<^verbatim>\<open>app.js\<close>: \<^verbatim>\<open>renderDateLabel\<close> keeps the picker on the
  selected day.\<close>

definition renderDateLabel :: "app \<Rightarrow> app" where
  "renderDateLabel s = s\<lparr>dateInput := selectedISO s\<rparr>"

definition renderAllApp :: "app \<Rightarrow> app" where
  "renderAllApp s = renderDateLabel s"

definition shiftSelectedDay :: "int \<Rightarrow> clock \<Rightarrow> app \<Rightarrow> app" where
  "shiftSelectedDay deltaDays clk s =
     (let next = shiftISO (selectedISO s) deltaDays in
      if isFutureISODate clk next then s
      else setStatus [] (setSaveButtonState Idle (renderAllApp (s\<lparr>selectedISO := next\<rparr>))))"

definition onSave :: "clock \<Rightarrow> app \<Rightarrow> app" where
  "onSave clk s =
     (let s1 = setStatus [] (setSaveButtonState Idle s); isoD = selectedISO s1 in
      if isoD = [] then setStatus ''Missing date.'' (setSaveButtonState Error s1)
      else if isFutureISODate clk isoD
      then setStatus ''Future dates blocked.'' (setSaveButtonState Error s1)
      else (case parseWeightInput (weightInput s1) of
              None \<Rightarrow> setStatus ''Invalid weight.'' (setSaveButtonState Error s1)
            | Some w \<Rightarrow>
                setStatus (''Saved '' @ numberToString w @ '' for '' @ isoToMMDDYY isoD @ ''.'')
                  (setSaveButtonState Saved
                     (renderAllApp (upsertEntry isoD w (dateNow clk) s1)))))"

text \<open>The \<^verbatim>\<open>change\<close> handler of the date input, whose value is \<open>v\<close>.\<close>

definition dateChanged :: "string \<Rightarrow> clock \<Rightarrow> app \<Rightarrow> app" where
  "dateChanged v clk s =
     (let next = v in
      if next = [] \<or> isFutureISODate clk next
      then setStatus ''Future dates blocked.''
             (setSaveButtonState Error (renderDateLabel (s\<lparr>dateInput := selectedISO s\<rparr>)))
      else setStatus [] (setSaveButtonState Idle (renderAllApp (s\<lparr>selectedISO := next\<rparr>))))"

definition seedApp :: "clock \<Rightarrow> entry list" where
  "seedApp clk =
     (let today = todayISODate clk in
      [\<lparr>entryDate = shiftISO today (- 14), weight = 1846 / 10, createdAt = of_int (dateNow clk)\<rparr>,
       \<lparr>entryDate = shiftISO today (- 10), weight = 1839 / 10, createdAt = of_int (dateNow clk)\<rparr>,
       \<lparr>entryDate = shiftISO today (- 7), weight = 1832 / 10, createdAt = of_int (dateNow clk)\<rparr>,
       \<lparr>entryDate = shiftISO today (- 3), weight = 1828 / 10, createdAt = of_int (dateNow clk)\<rparr>])"

definition initApp :: "clock \<Rightarrow> json option \<Rightarrow> app" where
  "initApp clk raw =
     (let today = todayISODate clk;
          s0 = \<lparr> entries = sortEntries (loadEntries (dateNow clk) raw), localStorage = raw,
                 weightInput = [], statusText = [], selectedISO = today,
                 dateInput = today, saveButton = Idle \<rparr>;
          s1 = (if entries s0 = []
                then saveEntries (s0\<lparr>entries := sortEntries (seedApp clk)\<rparr>)
                else s0)
      in setSaveButtonState Idle (renderAllApp s1))"

text \<open>What happens to the page: the field is edited, Save is clicked (or Enter
  pressed), the picker changes to a value, a swipe is committed (\<^verbatim>\<open>"right"\<close> calls
  \<^verbatim>\<open>shiftSelectedDay(-1)\<close>, \<^verbatim>\<open>"left"\<close> calls \<^verbatim>\<open>shiftSelectedDay(+1)\<close>), the timer
  of the button runs out.\<close>

datatype appEvent =
  TypedApp string | SaveClicked | DatePicked string | SwipedApp direction | ButtonTimer

definition stepApp :: "clock \<Rightarrow> appEvent \<Rightarrow> app \<Rightarrow> app" where
  "stepApp clk ev s =
     (case ev of
        TypedApp t \<Rightarrow> setStatus [] (setSaveButtonState Idle (s\<lparr>weightInput := t\<rparr>))
      | SaveClicked \<Rightarrow> onSave clk s
      | DatePicked v \<Rightarrow> dateChanged v clk s
      | SwipedApp dir \<Rightarrow> shiftSelectedDay (swipeDelta dir) clk s
      | ButtonTimer \<Rightarrow> setSaveButtonState Idle s)"

inductive reachApp :: "json option \<Rightarrow> clock \<Rightarrow> app \<Rightarrow> bool" for raw :: "json option" where
  startApp: "plausibleClock clk \<Longrightarrow> reachApp raw clk (initApp clk raw)"
| stepApp: "reachApp raw clk s \<Longrightarrow> plausibleClock clk' \<Longrightarrow> notBefore clk clk' \<Longrightarrow>
            reachApp raw clk' (stepApp clk' ev s)"

subsection \<open>\<^verbatim>\<open>part_000\<close>: the first page\<close>

text \<open>\<^verbatim>\<open>part_000\<close> has no variable \<^verbatim>\<open>selectedISO\<close>: the day is the value of the date
  input. Its \<^verbatim>\<open>init\<close> is embedded on the record of \<^verbatim>\<open>app.js\<close> and leaves that field
  empty.\<close>

definition initFirst :: "clock \<Rightarrow> json option \<Rightarrow> app" where
  "initFirst clk raw =
     (let today = todayISODate clk;
          s0 = \<lparr> entries = sortEntries (loadEntries (dateNow clk) raw), localStorage = raw,
                 weightInput = [], statusText = [], selectedISO = [],
                 dateInput = today, saveButton = Idle \<rparr>;
          s1 = (if entries s0 = []
                then saveEntries (s0\<lparr>entries := sortEntries (seedApp clk)\<rparr>)
                else s0)
      in setSaveButtonState Idle s1)"


subsection \<open>A clock for the examples\<close>

text \<open>1 March 2024, a Friday after a leap day.\<close>

definition exampleClock :: clock where
  "exampleClock = \<lparr> localDate = \<lparr>getFullYear = 2024, getMonth = 2, getDate = 1\<rparr>,
                     dateNow = 1709290000000 \<rparr>"

section \<open>Properties of the runtime model\<close>

subsection \<open>The calendar\<close>

lemma div_step:
  fixes a k :: int
  assumes k: "0 < k"
  shows "(a + 1) div k = a div k + (if (a + 1) mod k = 0 then 1 else 0)"
proof -
  have d: "k * (a div k + 1) = k * (a div k) + k"
    by (simp add: algebra_simps)
  have e: "k * (a div k) + a mod k = a"
    by simp
  show ?thesis
  proof (cases "a mod k + 1 = k")
    case True
    have "a + 1 = k * (a div k + 1) + 0"
      using True d e by linarith
    then have "(a + 1) div k = a div k + 1" "(a + 1) mod k = 0"
      using k int_div_pos_eq [of "a + 1" k "a div k + 1" 0]
        int_mod_pos_eq [of "a + 1" k "a div k + 1" 0]
      by auto
    then show ?thesis by simp
  next
    case False
    have r: "0 \<le> a mod k + 1" "a mod k + 1 < k"
      using False pos_mod_bound [OF k, of a] pos_mod_sign [OF k, of a] by auto
    have "a + 1 = k * (a div k) + (a mod k + 1)"
      using e by linarith
    then have "(a + 1) div k = a div k" "(a + 1) mod k = a mod k + 1"
      using r int_div_pos_eq [of "a + 1" k "a div k" "a mod k + 1"]
        int_mod_pos_eq [of "a + 1" k "a div k" "a mod k + 1"]
      by auto
    then show ?thesis using r pos_mod_sign [OF k, of a] by auto
  qed
qed

lemma dayFromYear_Suc:
  "dayFromYear (y + 1) = dayFromYear y + 365 + (if leapYear y then 1 else 0)"
proof -
  define p4 p100 p400 where "p4 = (y mod 4 = 0)" and "p100 = (y mod 100 = 0)"
    and "p400 = (y mod 400 = 0)"
  have m4: "(y - 1968) mod 4 = y mod 4"
    using mod_mult_self2 [of y 4 "- 492"] by simp
  have m100: "(y - 1900) mod 100 = y mod 100"
    using mod_mult_self2 [of y 100 "- 19"] by simp
  have m400: "(y - 1600) mod 400 = y mod 400"
    using mod_mult_self2 [of y 400 "- 4"] by simp
  have a: "(y - 1968) div 4 = (y - 1969) div 4 + (if p4 then 1 else 0)"
    using div_step [of 4 "y - 1969"] m4 by (simp add: p4_def)
  have b: "(y - 1900) div 100 = (y - 1901) div 100 + (if p100 then 1 else 0)"
    using div_step [of 100 "y - 1901"] m100 by (simp add: p100_def)
  have c: "(y - 1600) div 400 = (y - 1601) div 400 + (if p400 then 1 else 0)"
    using div_step [of 400 "y - 1601"] m400 by (simp add: p400_def)
  have d1: "p100" if "p400"
  proof -
    from that have "y = 100 * (4 * (y div 400))"
      using mult_div_mod_eq [of 400 y] by (simp add: p400_def)
    then show ?thesis
      unfolding p100_def by (metis mod_mult_self1_is_0)
  qed
  have d2: "p4" if "p100"
  proof -
    from that have "y = 4 * (25 * (y div 100))"
      using mult_div_mod_eq [of 100 y] by (simp add: p100_def)
    then show ?thesis
      unfolding p4_def by (metis mod_mult_self1_is_0)
  qed
  have l: "leapYear y = (p4 \<and> (\<not> p100 \<or> p400))"
    by (simp add: leapYear_def p4_def p100_def p400_def)
  have n: "y + 1 - 1969 = y - 1968" "y + 1 - 1901 = y - 1900" "y + 1 - 1601 = y - 1600"
    by simp_all
  show ?thesis
    unfolding dayFromYear_def l n a b c using d1 d2
    by (cases p4; cases p100; cases p400) simp_all
qed


lemma month_cases:
  "0 \<le> (m::int) \<Longrightarrow> m \<le> 11 \<Longrightarrow>
   m = 0 \<or> m = 1 \<or> m = 2 \<or> m = 3 \<or> m = 4 \<or> m = 5 \<or> m = 6 \<or> m = 7 \<or> m = 8
   \<or> m = 9 \<or> m = 10 \<or> m = 11"
  by arith

lemma daysInMonth_bounds: "28 \<le> daysInMonth y m \<and> daysInMonth y m \<le> 31"
  by (simp add: daysInMonth_def)

lemma valid_nextDay: "validDate dt \<Longrightarrow> validDate (nextDay dt)"
  using daysInMonth_bounds [of "getFullYear dt" "getMonth dt + 1"]
        daysInMonth_bounds [of "getFullYear dt + 1" 0]
  by (auto simp: validDate_def nextDay_def)

lemma valid_prevDay: "validDate dt \<Longrightarrow> validDate (prevDay dt)"
  using daysInMonth_bounds [of "getFullYear dt" "getMonth dt - 1"]
  by (auto simp: validDate_def prevDay_def daysInMonth_def)

lemma prevDay_nextDay: "validDate dt \<Longrightarrow> prevDay (nextDay dt) = dt"
  using daysInMonth_bounds [of "getFullYear dt" "getMonth dt"]
  by (auto simp: validDate_def nextDay_def prevDay_def daysInMonth_def)

lemma nextDay_prevDay: "validDate dt \<Longrightarrow> nextDay (prevDay dt) = dt"
  using daysInMonth_bounds [of "getFullYear dt" "getMonth dt - 1"]
  by (auto simp: validDate_def nextDay_def prevDay_def daysInMonth_def)

lemma daysBeforeMonth_Suc:
  "0 \<le> m \<Longrightarrow> m < 11 \<Longrightarrow> daysBeforeMonth y (m + 1) = daysBeforeMonth y m + daysInMonth y m"
  using month_cases [of m] by (auto simp: daysBeforeMonth_def daysInMonth_def)

lemma daysBeforeMonth_last: "daysBeforeMonth y 11 = 334 + (if leapYear y then 1 else 0)"
  by (simp add: daysBeforeMonth_def)

lemma daysBeforeMonth_first: "daysBeforeMonth y 0 = 0"
  by (simp add: daysBeforeMonth_def)

lemma dayNumber_nextDay:
  assumes "validDate dt"
  shows "dayNumber (nextDay dt) = dayNumber dt + 1"
proof -
  let ?y = "getFullYear dt" and ?m = "getMonth dt" and ?d = "getDate dt"
  from assms have v: "0 \<le> ?m" "?m \<le> 11" "1 \<le> ?d" "?d \<le> daysInMonth ?y ?m"
    by (simp_all add: validDate_def)
  consider (day) "?d < daysInMonth ?y ?m"
    | (month) "?d = daysInMonth ?y ?m" "?m < 11"
    | (year) "?d = daysInMonth ?y ?m" "?m = 11"
    using v by linarith
  then show ?thesis
  proof cases
    case day
    then show ?thesis by (simp add: nextDay_def dayNumber_def)
  next
    case month
    then show ?thesis
      using daysBeforeMonth_Suc [of ?m ?y] v by (simp add: nextDay_def dayNumber_def)
  next
    case year
    then have "?d = 31" by (simp add: daysInMonth_def)
    then show ?thesis
      using year dayFromYear_Suc [of ?y]
      by (simp add: nextDay_def dayNumber_def daysBeforeMonth_last daysBeforeMonth_first)
  qed
qed

lemma dayNumber_prevDay:
  assumes "validDate dt"
  shows "dayNumber (prevDay dt) = dayNumber dt - 1"
  using dayNumber_nextDay [OF valid_prevDay [OF assms]] nextDay_prevDay [OF assms] by simp

lemma valid_funpow_nextDay: "validDate dt \<Longrightarrow> validDate ((nextDay ^^ n) dt)"
  by (induction n) (simp_all add: valid_nextDay)

lemma valid_funpow_prevDay: "validDate dt \<Longrightarrow> validDate ((prevDay ^^ n) dt)"
  by (induction n) (simp_all add: valid_prevDay)

lemma valid_addDays: "validDate dt \<Longrightarrow> validDate (addDays dt k)"
  by (simp add: addDays_def valid_funpow_nextDay valid_funpow_prevDay)

lemma dayNumber_funpow_nextDay:
  "validDate dt \<Longrightarrow> dayNumber ((nextDay ^^ n) dt) = dayNumber dt + int n"
  by (induction n) (simp_all add: dayNumber_nextDay valid_funpow_nextDay)

lemma dayNumber_funpow_prevDay:
  "validDate dt \<Longrightarrow> dayNumber ((prevDay ^^ n) dt) = dayNumber dt - int n"
  by (induction n) (simp_all add: dayNumber_prevDay valid_funpow_prevDay)

lemma dayNumber_addDays: "validDate dt \<Longrightarrow> dayNumber (addDays dt k) = dayNumber dt + k"
  by (simp add: addDays_def dayNumber_funpow_nextDay dayNumber_funpow_prevDay)

lemma addDays_zero: "addDays dt 0 = dt"
  by (simp add: addDays_def)

lemma addDays_succ:
  assumes "validDate dt"
  shows "addDays dt (k + 1) = nextDay (addDays dt k)"
proof (cases "0 \<le> k")
  case True
  then have "nat (k + 1) = Suc (nat k)" by simp
  with True show ?thesis by (simp add: addDays_def)
next
  case False
  then have n: "nat (- k) = Suc (nat (- (k + 1)))" by simp
  have "nextDay ((prevDay ^^ nat (- k)) dt) = (prevDay ^^ nat (- (k + 1))) dt"
    unfolding n using nextDay_prevDay [OF valid_funpow_prevDay [OF assms]] by simp
  with False show ?thesis by (auto simp: addDays_def)
qed

lemma addDays_pred:
  assumes "validDate dt"
  shows "addDays dt (k - 1) = prevDay (addDays dt k)"
  using addDays_succ [OF assms, of "k - 1"] prevDay_nextDay [OF valid_addDays [OF assms]]
  by simp

lemma addDays_add:
  assumes "validDate dt"
  shows "addDays (addDays dt a) b = addDays dt (a + b)"
proof (induction b rule: int_induct [where k = 0])
  case base
  show ?case by (simp add: addDays_zero)
next
  case (step1 i)
  then show ?case
    using addDays_succ [OF valid_addDays [OF assms], of a i] addDays_succ [OF assms, of "a + i"]
    by (simp add: add.assoc)
next
  case (step2 i)
  then show ?case
    using addDays_pred [OF valid_addDays [OF assms], of a i] addDays_pred [OF assms, of "a + i"]
    by (simp add: algebra_simps)
qed

lemma funpow_nextDay_in_month:
  "1 + int n \<le> daysInMonth y m \<Longrightarrow>
   (nextDay ^^ n) \<lparr>getFullYear = y, getMonth = m, getDate = 1\<rparr>
     = \<lparr>getFullYear = y, getMonth = m, getDate = 1 + int n\<rparr>"
  by (induction n) (simp_all add: nextDay_def)

lemma makeDay_valid:
  assumes "validDate dt"
  shows "makeDay (getFullYear dt) (getMonth dt) (getDate dt) = dt"
proof -
  from assms have v: "0 \<le> getMonth dt" "getMonth dt \<le> 11" "1 \<le> getDate dt"
      "getDate dt \<le> daysInMonth (getFullYear dt) (getMonth dt)"
    by (simp_all add: validDate_def)
  then have m: "getMonth dt div 12 = 0" "getMonth dt mod 12 = getMonth dt"
    by simp_all
  have "1 + int (nat (getDate dt - 1)) = getDate dt"
    using v by simp
  then show ?thesis
    using v funpow_nextDay_in_month [of "nat (getDate dt - 1)" "getFullYear dt" "getMonth dt"]
    by (simp add: makeDay_def m addDays_def)
qed

lemma setDate_shift:
  assumes "validDate dt"
  shows "setDate dt (getDate dt + k) = addDays dt k"
proof -
  let ?b = "\<lparr>getFullYear = getFullYear dt, getMonth = getMonth dt, getDate = 1\<rparr>"
  from assms have v: "0 \<le> getMonth dt" "getMonth dt \<le> 11"
    by (simp_all add: validDate_def)
  then have m: "getMonth dt div 12 = 0" "getMonth dt mod 12 = getMonth dt"
    by simp_all
  have vb: "validDate ?b"
    using v daysInMonth_bounds [of "getFullYear dt" "getMonth dt"] by (simp add: validDate_def)
  have "dt = addDays ?b (getDate dt - 1)"
    using makeDay_valid [OF assms] by (simp add: makeDay_def m)
  then have "addDays dt k = addDays (addDays ?b (getDate dt - 1)) k"
    by simp
  also have "\<dots> = addDays ?b (getDate dt - 1 + k)"
    by (rule addDays_add [OF vb])
  finally show ?thesis
    by (simp add: setDate_def makeDay_def m algebra_simps)
qed

subsection \<open>Printing and reading a date\<close>

lemma isDigit_char_of: "0 \<le> (k::int) \<Longrightarrow> k < 10 \<Longrightarrow> isDigit (char_of (48 + k))"
  by (simp add: isDigit_def)

lemma digitVal_char_of: "0 \<le> (k::int) \<Longrightarrow> k < 10 \<Longrightarrow> digitVal (char_of (48 + k)) = k"
  by (simp add: digitVal_def)

lemma digitsValue_snoc: "digitsValue (ds @ [c]) = 10 * digitsValue ds + digitVal c"
  by (simp add: digitsValue_def)

lemma decimal_digits:
  "0 \<le> n \<Longrightarrow> decimal n \<noteq> [] \<and> list_all isDigit (decimal n) \<and> digitsValue (decimal n) = n"
proof (induction n rule: decimal.induct)
  case (1 n)
  show ?case
  proof (cases "n < 10")
    case True
    with "1.prems" show ?thesis
      by (simp add: isDigit_char_of digitVal_char_of digitsValue_def)
  next
    case False
    with 1 have ih: "list_all isDigit (decimal (n div 10))" "digitsValue (decimal (n div 10)) = n div 10"
      by simp_all
    have m: "0 \<le> n mod 10" "n mod 10 < 10"
      by simp_all
    from False have d: "decimal n = decimal (n div 10) @ [char_of (48 + n mod 10)]"
      by (subst decimal.simps) simp
    show ?thesis
      unfolding d using ih m
      by (simp add: isDigit_char_of digitVal_char_of digitsValue_snoc)
  qed
qed

lemma isDigit_not_space: "isDigit c \<Longrightarrow> \<not> isWhiteSpace c"
  by (auto simp: isDigit_def isWhiteSpace_def)

lemma dropWhile_hd: "xs \<noteq> [] \<Longrightarrow> \<not> P (hd xs) \<Longrightarrow> dropWhile P xs = xs"
  by (cases xs) simp_all

lemma trim_id: "s \<noteq> [] \<Longrightarrow> \<not> isWhiteSpace (hd s) \<Longrightarrow> \<not> isWhiteSpace (last s) \<Longrightarrow> trim s = s"
  by (simp add: trim_def dropWhile_hd hd_rev)

lemma digits_hd_last:
  "s \<noteq> [] \<Longrightarrow> list_all isDigit s \<Longrightarrow> isDigit (hd s) \<and> isDigit (last s)"
  by (simp add: list_all_iff)

lemma isDigit_facts:
  "isDigit c \<Longrightarrow> c \<noteq> CHR ''x'' \<and> c \<noteq> CHR ''X'' \<and> c \<noteq> CHR ''o'' \<and> c \<noteq> CHR ''O''
     \<and> c \<noteq> CHR ''b'' \<and> c \<noteq> CHR ''B'' \<and> c \<noteq> CHR ''+'' \<and> c \<noteq> CHR ''-'' \<and> c \<noteq> CHR ''I''
     \<and> c \<noteq> CHR ''.''"
  by (auto simp: isDigit_def)

lemma nonDecimalLiteral_digits: "list_all isDigit s \<Longrightarrow> nonDecimalLiteral s = None"
  by (auto simp: nonDecimalLiteral_def split: list.splits dest: isDigit_facts)

lemma strUnsignedDecimal_digits:
  assumes "s \<noteq> []" "list_all isDigit s"
  shows "strUnsignedDecimal s = Finite (of_int (digitsValue s))"
proof -
  have "isDigit (hd s)" using assms digits_hd_last by blast
  then have "hd s \<noteq> CHR ''I''" using isDigit_facts by blast
  then have i: "s \<noteq> ''Infinity''" by auto
  have t: "takeWhile isDigit s = s" "dropWhile isDigit s = []"
    using assms by (simp_all add: list_all_iff)
  show ?thesis
    using assms(1) i by (simp add: strUnsignedDecimal_def t)
qed

lemma Number_digits:
  assumes "s \<noteq> []" "list_all isDigit s"
  shows "Number s = Finite (of_int (digitsValue s))"
proof -
  have hl: "isDigit (hd s)" "isDigit (last s)"
    using assms digits_hd_last by blast+
  then have t: "trim s = s"
    using assms(1) by (simp add: trim_id isDigit_not_space)
  show ?thesis
  proof (cases s)
    case Nil
    with assms(1) show ?thesis by simp
  next
    case (Cons c u)
    with hl have c: "c \<noteq> CHR ''+''" "c \<noteq> CHR ''-''"
      using isDigit_facts by auto
    have "nonDecimalLiteral (c # u) = None"
        "strUnsignedDecimal (c # u) = Finite (of_int (digitsValue (c # u)))"
        "trim (c # u) = c # u"
      using nonDecimalLiteral_digits [OF assms(2)] strUnsignedDecimal_digits [OF assms] t
      unfolding Cons by simp_all
    then show ?thesis
      unfolding Cons using c by (simp add: Number_def)
  qed
qed

lemma split_no_sep: "sep \<notin> set a \<Longrightarrow> split sep a = [a]"
  by (induction a) auto

lemma split_append: "sep \<notin> set a \<Longrightarrow> split sep (a @ sep # b) = a # split sep b"
  by (induction a) auto

lemma digits_no_hyphen: "list_all isDigit s \<Longrightarrow> CHR ''-'' \<notin> set s"
  using isDigit_facts by (auto simp: list_all_iff)

lemma padStart2_digits:
  "s \<noteq> [] \<Longrightarrow> list_all isDigit s \<Longrightarrow>
   padStart2 s \<noteq> [] \<and> list_all isDigit (padStart2 s) \<and> digitsValue (padStart2 s) = digitsValue s"
proof -
  have z: "isDigit (CHR ''0'')" "digitVal (CHR ''0'') = 0"
    by (simp_all add: isDigit_def digitVal_def)
  have r: "foldl (\<lambda>a c. 10 * a + digitVal c) 0 (replicate k (CHR ''0'')) = 0" for k
    by (induction k) (simp_all add: z)
  have r2: "list_all isDigit (replicate k (CHR ''0''))" for k
    by (induction k) (simp_all add: z)
  assume "s \<noteq> []" "list_all isDigit s"
  then show ?thesis
    by (simp add: padStart2_def digitsValue_def r r2)
qed

lemma intToString_digits:
  "0 \<le> n \<Longrightarrow> intToString n \<noteq> [] \<and> list_all isDigit (intToString n)
     \<and> digitsValue (intToString n) = n"
  using decimal_digits [of n] by (simp add: intToString_def)

lemma toInteger_of_int: "toInteger (of_int k) = k"
  by (simp add: toInteger_def)

lemma dateOfISO_formatISO:
  assumes v: "validDate dt" and y: "100 \<le> getFullYear dt"
  shows "dateOfISO (formatISO dt) = Some dt"
proof -
  let ?Y = "intToString (getFullYear dt)"
  let ?M = "padStart2 (intToString (getMonth dt + 1))"
  let ?D = "padStart2 (intToString (getDate dt))"
  from v have r: "0 \<le> getMonth dt + 1" "0 \<le> getDate dt"
    by (simp_all add: validDate_def)
  have Y: "?Y \<noteq> []" "list_all isDigit ?Y" "digitsValue ?Y = getFullYear dt"
    using intToString_digits [of "getFullYear dt"] y by simp_all
  have M: "?M \<noteq> []" "list_all isDigit ?M" "digitsValue ?M = getMonth dt + 1"
    using intToString_digits [OF r(1)] padStart2_digits [of "intToString (getMonth dt + 1)"]
    by simp_all
  have D: "?D \<noteq> []" "list_all isDigit ?D" "digitsValue ?D = getDate dt"
    using intToString_digits [OF r(2)] padStart2_digits [of "intToString (getDate dt)"]
    by simp_all
  have "split (CHR ''-'') (formatISO dt) = [?Y, ?M, ?D]"
    using digits_no_hyphen [OF Y(2)] digits_no_hyphen [OF M(2)] digits_no_hyphen [OF D(2)]
    by (simp add: formatISO_def split_append split_no_sep)
  then have "dateOfISO (formatISO dt)
      = newDate (Finite (of_int (getFullYear dt))) (minusOne (Finite (of_int (getMonth dt + 1))))
          (Finite (of_int (getDate dt)))"
    using Number_digits [OF Y(1,2)] Number_digits [OF M(1,2)] Number_digits [OF D(1,2)] Y(3) M(3) D(3)
    by (simp add: dateOfISO_def)
  also have "\<dots> = Some (newDateInt (getFullYear dt) (getMonth dt) (getDate dt))"
    using toInteger_of_int [of "getMonth dt"]
    by (simp add: newDate_def minusOne_def toInteger_of_int)
  also have "\<dots> = Some dt"
    using y makeDay_valid [OF v] by (simp add: newDateInt_def)
  finally show ?thesis .
qed

subsection \<open>The date helpers on well-formed days\<close>

lemma year_nextDay: "getFullYear dt \<le> getFullYear (nextDay dt)"
  by (simp add: nextDay_def)

lemma year_prevDay: "getFullYear dt - 1 \<le> getFullYear (prevDay dt)"
  by (simp add: prevDay_def)

lemma year_funpow_nextDay: "getFullYear dt \<le> getFullYear ((nextDay ^^ n) dt)"
proof (induction n)
  case 0
  show ?case by simp
next
  case (Suc n)
  then show ?case
    using year_nextDay [of "(nextDay ^^ n) dt"] by simp
qed

lemma year_funpow_prevDay: "getFullYear dt - int n \<le> getFullYear ((prevDay ^^ n) dt)"
proof (induction n)
  case 0
  show ?case by simp
next
  case (Suc n)
  then show ?case
    using year_prevDay [of "(prevDay ^^ n) dt"] by simp
qed

lemma year_addDays: "getFullYear dt - \<bar>k\<bar> \<le> getFullYear (addDays dt k)"
proof (cases "0 \<le> k")
  case True
  then show ?thesis
    using year_funpow_nextDay [of dt "nat k"] by (simp add: addDays_def)
next
  case False
  then have "int (nat (- k)) = \<bar>k\<bar>" by simp
  with False show ?thesis
    using year_funpow_prevDay [of dt "nat (- k)"] by (simp add: addDays_def)
qed

lemma getTime_less: "getTime a < getTime b \<longleftrightarrow> dayNumber a < dayNumber b"
  by (simp add: getTime_def)

lemma shiftISO_formatISO:
  "validDate c \<Longrightarrow> 100 \<le> getFullYear c \<Longrightarrow> shiftISO (formatISO c) k = formatISO (addDays c k)"
  by (simp add: shiftISO_def dateOfISO_formatISO setDate_shift)

lemma localMidnight_plausible: "plausibleClock clk \<Longrightarrow> localMidnight clk = localDate clk"
  by (simp add: plausibleClock_def localMidnight_def newDateInt_def makeDay_valid)

lemma isFuture_plausible:
  "plausibleClock clk \<Longrightarrow>
   isFutureISODate clk x =
     (case dateOfISO x of None \<Rightarrow> False | Some d \<Rightarrow> dayNumber (localDate clk) < dayNumber d)"
  by (simp add: isFutureISODate_def localMidnight_plausible getTime_less split: option.splits)

lemma isFuture_formatISO:
  "validDate c \<Longrightarrow> 100 \<le> getFullYear c \<Longrightarrow> plausibleClock clk \<Longrightarrow>
   isFutureISODate clk (formatISO c) \<longleftrightarrow> dayNumber (localDate clk) < dayNumber c"
  by (simp add: isFuture_plausible dateOfISO_formatISO)

lemma isFuture_today: "plausibleClock clk \<Longrightarrow> \<not> isFutureISODate clk (todayISODate clk)"
  using isFuture_formatISO [of "localDate clk" clk]
  by (simp add: todayISODate_def plausibleClock_def)

lemma shiftISO_today:
  "plausibleClock clk \<Longrightarrow> shiftISO (todayISODate clk) k = formatISO (addDays (localDate clk) k)"
  by (simp add: todayISODate_def plausibleClock_def shiftISO_formatISO)

lemma isFuture_shift_today:
  assumes "plausibleClock clk" "\<bar>k\<bar> \<le> 1000"
  shows "isFutureISODate clk (shiftISO (todayISODate clk) k) \<longleftrightarrow> 0 < k"
proof -
  let ?c = "addDays (localDate clk) k"
  from assms have v: "validDate (localDate clk)" "1970 \<le> getFullYear (localDate clk)"
    by (simp_all add: plausibleClock_def)
  have "validDate ?c" "100 \<le> getFullYear ?c"
    using v valid_addDays year_addDays [of "localDate clk" k] assms(2) by auto
  then show ?thesis
    using isFuture_formatISO [of ?c clk] assms(1) v
    by (simp add: shiftISO_today dayNumber_addDays)
qed

lemma isFuture_mono:
  assumes "plausibleClock clk" "plausibleClock clk'" "notBefore clk clk'"
    "\<not> isFutureISODate clk x"
  shows "\<not> isFutureISODate clk' x"
proof (cases "dateOfISO x")
  case None
  then show ?thesis by (simp add: isFuture_plausible [OF assms(2)])
next
  case (Some d)
  with assms(4) have "\<not> dayNumber (localDate clk) < dayNumber d"
    by (simp add: isFuture_plausible [OF assms(1)])
  with assms(3) have "\<not> dayNumber (localDate clk') < dayNumber d"
    by (simp add: notBefore_def)
  with Some show ?thesis by (simp add: isFuture_plausible [OF assms(2)])
qed

lemma formatISO_inj:
  assumes "validDate a" "100 \<le> getFullYear a" "validDate b" "100 \<le> getFullYear b"
    "formatISO a = formatISO b"
  shows "a = b"
proof -
  have "Some a = dateOfISO (formatISO a)"
    using dateOfISO_formatISO [OF assms(1,2)] by simp
  also have "\<dots> = dateOfISO (formatISO b)"
    by (simp only: assms(5))
  also have "\<dots> = Some b"
    by (rule dateOfISO_formatISO [OF assms(3,4)])
  finally show ?thesis by simp
qed

lemma shiftISO_today_inj:
  assumes "plausibleClock clk" "\<bar>j\<bar> \<le> 1000" "\<bar>k\<bar> \<le> 1000"
    "shiftISO (todayISODate clk) j = shiftISO (todayISODate clk) k"
  shows "j = k"
proof -
  let ?t = "localDate clk"
  from assms(1) have v: "validDate ?t" "1970 \<le> getFullYear ?t"
    by (simp_all add: plausibleClock_def)
  have a: "validDate (addDays ?t j)" "100 \<le> getFullYear (addDays ?t j)"
    using v valid_addDays year_addDays [of ?t j] assms(2) by auto
  have b: "validDate (addDays ?t k)" "100 \<le> getFullYear (addDays ?t k)"
    using v valid_addDays year_addDays [of ?t k] assms(3) by auto
  have "addDays ?t j = addDays ?t k"
    using formatISO_inj [OF a b] assms(4) shiftISO_today [OF assms(1)] by simp
  then have "dayNumber ?t + j = dayNumber ?t + k"
    using dayNumber_addDays [OF v(1)] by metis
  then show ?thesis by simp
qed

section \<open>Properties of the weight parser\<close>

text \<open>Rounding to one decimal: \<^verbatim>\<open>Math.round(n * 10) / 10\<close> is a multiple of \<open>1/10\<close>
  at distance at most \<open>1/20\<close> from \<open>n\<close>, and of two such multiples the larger.\<close>

lemma Math_round_bounds:
  "x - 1 / 2 < of_int (Math_round x) \<and> of_int (Math_round x) \<le> x + 1 / 2"
  unfolding Math_round_def by linarith

lemma round_tenth_near:
  "n - 1 / 20 < of_int (Math_round (n * 10)) / 10
   \<and> of_int (Math_round (n * 10)) / 10 \<le> n + 1 / 20"
  using Math_round_bounds [of "n * 10"] by (simp add: field_simps)

lemma parseWeight_None_iff:
  "parseWeight raw = None \<longleftrightarrow>
     (replaceComma (trim raw) = []
      \<or> Number (replaceComma (trim raw)) = NaN
      \<or> Number (replaceComma (trim raw)) = PosInfinity
      \<or> Number (replaceComma (trim raw)) = NegInfinity
      \<or> (\<exists>n. Number (replaceComma (trim raw)) = Finite n \<and> (n \<le> 0 \<or> 1400 < n)))"
  by (auto simp: parseWeight_def Let_def split: jsnum.splits)

lemma parseWeight_Some:
  "parseWeight raw = Some w \<Longrightarrow>
     \<exists>n. Number (replaceComma (trim raw)) = Finite n \<and> 0 < n \<and> n \<le> 1400
         \<and> w = of_int (Math_round (n * 10)) / 10"
  by (auto simp: parseWeight_def Let_def split: jsnum.splits if_splits)

lemma parseWeightInput_eq: "parseWeightInput raw = parseWeight raw"
  by (simp add: parseWeightInput_def parseWeight_def)



section \<open>Properties of the store\<close>

lemma find_filter_conv:
  "find P xs = (case filter P xs of [] \<Rightarrow> None | x # _ \<Rightarrow> Some x)"
  by (induction xs) auto

lemma entries_upsertEntry:
  "entries (upsertEntry isoD w now s) =
     sortEntries (filter (\<lambda>e. entryDate e \<noteq> isoD) (entries s)
                  @ [\<lparr>entryDate = isoD, weight = w, createdAt = of_int now\<rparr>])"
  by (simp add: upsertEntry_def saveEntries_def)

lemma filter_day_upsertEntry:
  "filter (\<lambda>e. entryDate e = isoD) (entries (upsertEntry isoD w now s)) =
     [\<lparr>entryDate = isoD, weight = w, createdAt = of_int now\<rparr>]"
  by (simp add: entries_upsertEntry sortEntries_def filter_sort)

lemma length_upsertEntry:
  "length (entries (upsertEntry isoD w now s)) =
     Suc (length (filter (\<lambda>e. entryDate e \<noteq> isoD) (entries s)))"
  by (simp add: entries_upsertEntry sortEntries_def)

lemma length_filter_split:
  "length (filter (\<lambda>e. entryDate e \<noteq> isoD) es) + length (filter (\<lambda>e. entryDate e = isoD) es)
     = length es"
  by (induction es) auto

text \<open>
  Claim C2. Upserting a weight for day \<open>d\<close> and then another one for the same day
  leaves exactly one entry for \<open>d\<close>; it carries the second weight and the time of the
  second call as \<^verbatim>\<open>createdAt\<close>; and the store is as long as after the first call.
\<close>

theorem upsert_same_day_overwrites:
  "length (filter (\<lambda>e. entryDate e = d)
             (entries (upsertEntry d w2 t2 (upsertEntry d w1 t1 s)))) = 1
   \<and> findEntry d (upsertEntry d w2 t2 (upsertEntry d w1 t1 s))
       = Some \<lparr>entryDate = d, weight = w2, createdAt = of_int t2\<rparr>
   \<and> length (entries (upsertEntry d w2 t2 (upsertEntry d w1 t1 s)))
       = length (entries (upsertEntry d w1 t1 s))"
proof -
  let ?s1 = "upsertEntry d w1 t1 s"
  have one: "length (filter (\<lambda>e. entryDate e = d) (entries ?s1)) = 1"
    by (simp add: filter_day_upsertEntry)
  have "length (entries (upsertEntry d w2 t2 ?s1))
          = Suc (length (filter (\<lambda>e. entryDate e \<noteq> d) (entries ?s1)))"
    by (rule length_upsertEntry)
  also have "\<dots> = length (entries ?s1)"
    using length_filter_split [of d "entries ?s1"] one by simp
  finally have len: "length (entries (upsertEntry d w2 t2 ?s1)) = length (entries ?s1)" .
  show ?thesis
    by (simp add: filter_day_upsertEntry findEntry_def find_filter_conv len)
qed

section \<open>Properties of the chart window\<close>

lemma length_forwardFill: "length (forwardFill l vs) = length vs"
  by (induction vs arbitrary: l) (simp_all split: option.splits)

lemma forwardFill_absent:
  "i < length vs \<Longrightarrow> (\<forall>j\<le>i. vs ! j = None) \<Longrightarrow> forwardFill l vs ! i = l"
proof (induction vs arbitrary: l i)
  case Nil
  then show ?case by simp
next
  case (Cons v vs)
  from Cons.prems(2) have v: "v = None" by (metis le0 nth_Cons_0)
  show ?case
  proof (cases i)
    case 0
    with v show ?thesis by simp
  next
    case (Suc n)
    have "\<forall>j\<le>n. vs ! j = None"
      using Cons.prems(2) Suc by (metis Suc_le_mono nth_Cons_Suc)
    with Cons.IH [of n l] Cons.prems(1) Suc v show ?thesis by simp
  qed
qed

lemma forwardFill_carry:
  "i < length vs \<Longrightarrow> j \<le> i \<Longrightarrow> vs ! j = Some w \<Longrightarrow> (\<forall>k. j < k \<and> k \<le> i \<longrightarrow> vs ! k = None)
   \<Longrightarrow> forwardFill l vs ! i = Some w"
proof (induction vs arbitrary: l i j)
  case Nil
  then show ?case by simp
next
  case (Cons v vs)
  show ?case
  proof (cases j)
    case 0
    then have v: "v = Some w" using Cons.prems(3) by simp
    show ?thesis
    proof (cases i)
      case 0
      with v show ?thesis by simp
    next
      case (Suc n)
      have "\<forall>k\<le>n. vs ! k = None"
        using Cons.prems(4) Suc \<open>j = 0\<close> by (metis Suc_le_mono nth_Cons_Suc zero_less_Suc)
      then have "forwardFill (Some w) vs ! n = Some w"
        using forwardFill_absent [of n vs "Some w"] Cons.prems(1) Suc by simp
      with v Suc show ?thesis by simp
    qed
  next
    case (Suc j')
    then obtain n where i: "i = Suc n" and jn: "j' \<le> n"
      using Cons.prems(2) by (cases i) auto
    have a: "vs ! j' = Some w" using Cons.prems(3) Suc by simp
    have b: "\<forall>k. j' < k \<and> k \<le> n \<longrightarrow> vs ! k = None"
    proof (intro allI impI)
      fix k assume "j' < k \<and> k \<le> n"
      then have "j < Suc k \<and> Suc k \<le> i" using Suc i by simp
      then have "(v # vs) ! Suc k = None" using Cons.prems(4) by blast
      then show "vs ! k = None" by simp
    qed
    have "forwardFill l' vs ! n = Some w" for l'
      using Cons.IH [of n j' l'] Cons.prems(1) i jn a b by simp
    then show ?thesis
      using i by (simp split: option.splits)
  qed
qed

lemma weekDays_eq:
  "weekDays e = [shiftISO e (- 6), shiftISO e (- 5), shiftISO e (- 4), shiftISO e (- 3),
                 shiftISO e (- 2), shiftISO e (- 1), shiftISO e 0]"
  by (simp add: weekDays_def)

lemma length_weekDays: "length (weekDays e) = 7"
  by (simp add: weekDays_def)

lemma seriesValues_eq:
  "seriesValues (getWeekSeries e s) = forwardFill None (map (recorded e s) [0..<7])"
proof -
  have "map (weightMap (entries s)) (weekDays e) = map (recorded e s) [0..<7]"
    by (rule nth_equalityI) (simp_all add: length_weekDays recorded_def)
  then show ?thesis
    by (simp add: getWeekSeries_def Let_def)
qed

lemma weightMap_distinct:
  "distinct (map entryDate es) \<Longrightarrow> weightMap es d = map_option weight (find (\<lambda>e. entryDate e = d) es)"
proof (induction es)
  case Nil
  then show ?case by (simp add: weightMap_def)
next
  case (Cons e es)
  then have ih: "weightMap es d = map_option weight (find (\<lambda>e. entryDate e = d) es)"
    by simp
  have w: "weightMap (e # es) d = (case weightMap es d of Some x \<Rightarrow> Some x | None \<Rightarrow> if entryDate e = d then Some (weight e) else None)"
    by (simp add: weightMap_def map_add_def split: option.splits)
  show ?case
  proof (cases "entryDate e = d")
    case True
    with Cons.prems have "d \<notin> entryDate ` set es" by auto
    then have "find (\<lambda>e. entryDate e = d) es = None"
      by (auto simp: find_None_iff)
    with True ih w show ?thesis by simp
  next
    case False
    with ih w show ?thesis by (simp split: option.splits)
  qed
qed

lemma fold_min_Min: "fold min xs (x::rat) = Min (set (x # xs))"
  by (rule Min.set_eq_fold [symmetric])

lemma fold_max_Max: "fold max xs (x::rat) = Max (set (x # xs))"
  by (rule Max.set_eq_fold [symmetric])

lemma minOr_Min: "nums \<noteq> [] \<Longrightarrow> minOr d nums = Min (set nums)"
  by (cases nums) (simp_all add: minOr_def fold_min_Min del: set_simps)

lemma maxOr_Max: "nums \<noteq> [] \<Longrightarrow> maxOr d nums = Max (set nums)"
  by (cases nums) (simp_all add: maxOr_def fold_max_Max del: set_simps)

lemma set_numbersOf: "set (numbersOf vs) = {x. Some x \<in> set vs}"
  by (induction vs) (auto simp: numbersOf_def split: option.splits)

lemma numbersOf_empty: "numbersOf vs = [] \<longleftrightarrow> vs = replicate (length vs) None"
  by (induction vs) (auto simp: numbersOf_def split: option.splits)

lemma length_seriesValues: "length (seriesValues (getWeekSeries e s)) = 7"
  by (simp add: seriesValues_eq length_forwardFill)

lemma dataMin_eq: "dataMin (getWeekSeries e s) = minOr 0 (numbersOf (seriesValues (getWeekSeries e s)))"
  by (simp add: getWeekSeries_def Let_def)

lemma dataMax_eq: "dataMax (getWeekSeries e s) = maxOr 1 (numbersOf (seriesValues (getWeekSeries e s)))"
  by (simp add: getWeekSeries_def Let_def)

lemma axis_eq:
  "yMax (computeAxisUpperThird lo hi) = hi + (2 / 10) * max (hi - lo) 1
   \<and> yMin (computeAxisUpperThird lo hi) = yMax (computeAxisUpperThird lo hi) - 3 * max (hi - lo) 1
   \<and> stepSize (computeAxisUpperThird lo hi) = max 1 (round (max (hi - lo) 1 / 2))"
proof -
  have r: "(if hi - lo < 1 then 1 else hi - lo) = max (hi - lo) 1"
    by (simp add: max_def)
  show ?thesis
    unfolding computeAxisUpperThird_def Let_def r
    by (simp add: Math_round_def round_def)
qed

lemma recorded_empty: "entries s = [] \<Longrightarrow> recorded e s i = None"
  by (simp add: recorded_def weightMap_def)

lemma seriesValues_empty:
  "entries s = [] \<Longrightarrow> seriesValues (getWeekSeries e s) = replicate 7 None"
proof -
  assume "entries s = []"
  then have "map (recorded e s) [0..<7] = replicate 7 None"
    by (simp add: recorded_empty upt_rec numeral_eq_Suc)
  then show ?thesis
    by (simp add: seriesValues_eq numeral_eq_Suc)
qed

lemma weekDays_nth:
  assumes "validDate c" "100 \<le> getFullYear c" "i < 7"
  shows "weekDays (formatISO c) ! i = formatISO (addDays c (int i - 6))
         \<and> dayNumber (addDays c (int i - 6)) = dayNumber c - 6 + int i"
proof -
  from assms(3) have "i = 0 \<or> i = 1 \<or> i = 2 \<or> i = 3 \<or> i = 4 \<or> i = 5 \<or> i = 6"
    by arith
  then have "weekDays (formatISO c) ! i = shiftISO (formatISO c) (int i - 6)"
    by (auto simp: weekDays_eq)
  then show ?thesis
    using assms(1,2) by (simp add: shiftISO_formatISO dayNumber_addDays)
qed

lemma series_one_entry:
  assumes "recorded e s 2 = Some w" "\<forall>j<7. j \<noteq> 2 \<longrightarrow> recorded e s j = None"
  shows "seriesValues (getWeekSeries e s) = [None, None, Some w, Some w, Some w, Some w, Some w]"
proof -
  have "map (recorded e s) [0..<7] = [None, None, Some w, None, None, None, None]"
    using assms by (simp add: upt_rec numeral_eq_Suc)
  then show ?thesis
    by (simp add: seriesValues_eq)
qed

text \<open>A week that crosses the end of a leap February, for the examples.\<close>

lemma weekDays_example:
  "weekDays ''2024-03-01'' =
     [''2024-02-24'', ''2024-02-25'', ''2024-02-26'', ''2024-02-27'', ''2024-02-28'',
      ''2024-02-29'', ''2024-03-01'']"
  by code_simp

section \<open>Properties of the gesture recognisers\<close>

lemma touchmove_single:
  "distX (fst (touchmove [p] h)) = fst p - startX h
   \<and> distY (fst (touchmove [p] h)) = snd p - startY h
   \<and> startX (fst (touchmove [p] h)) = startX h
   \<and> startY (fst (touchmove [p] h)) = startY h
   \<and> startTime (fst (touchmove [p] h)) = startTime h"
  by (simp add: touchmove_def Let_def)

lemma moves_start:
  "startX (moves ps g) = startX g \<and> startY (moves ps g) = startY g
   \<and> startTime (moves ps g) = startTime g"
  by (induction ps arbitrary: g) (simp_all add: moves_def touchmove_single)

lemma moves_snoc: "moves (ps @ [p]) g = fst (touchmove [p] (moves ps g))"
  by (simp add: moves_def)

lemma moves_last:
  assumes "ps \<noteq> []"
  shows "distX (moves ps g) = fst (last ps) - startX g
         \<and> distY (moves ps g) = snd (last ps) - startY g"
proof -
  from assms obtain qs q where ps: "ps = qs @ [q]"
    by (metis rev_exhaust)
  show ?thesis
    unfolding ps moves_snoc by (simp add: touchmove_single moves_start)
qed

lemma touchstart_single:
  "touchstart [p] t0 g = \<lparr> startX = fst p, startY = snd p, distX = 0, distY = 0,
      startTime = t0, locked = False, lockDir = None \<rparr>"
  by (simp add: touchstart_def)

lemma swipeGesture_eq:
  assumes "ps \<noteq> []"
  shows "swipeGesture g p t0 ps t1 =
    (if t1 - t0 \<le> 450 \<and> \<bar>fst (last ps) - fst p\<bar> \<ge> 70 \<and> \<bar>snd (last ps) - snd p\<bar> \<le> 90
     then Commit (if fst (last ps) - fst p < 0 then SwipeLeft else SwipeRight)
     else SnapBack)"
  using moves_last [OF assms, of "touchstart [p] t0 g"] moves_start [of ps "touchstart [p] t0 g"]
  by (simp add: swipeGesture_def touchend_def Let_def touchstart_single)

lemma navTouch_eq:
  "snd (navTouchend [q] (navTouchstart [p] g)) =
     (if \<bar>snd q - snd p\<bar> > 60 then SnapBack
      else if \<bar>fst q - fst p\<bar> < 40 then SnapBack
      else if fst q - fst p > 0 then Commit SwipeRight else Commit SwipeLeft)"
  by (simp add: navTouchend_def navTouchstart_def Let_def)

lemma navTouch_commit:
  "(snd (navTouchend [q] (navTouchstart [p] h)) = Commit SwipeRight \<longleftrightarrow>
      \<bar>snd q - snd p\<bar> \<le> 60 \<and> \<bar>fst q - fst p\<bar> \<ge> 40 \<and> fst q - fst p > 0)
   \<and> (snd (navTouchend [q] (navTouchstart [p] h)) = Commit SwipeLeft \<longleftrightarrow>
      \<bar>snd q - snd p\<bar> \<le> 60 \<and> \<bar>fst q - fst p\<bar> \<ge> 40 \<and> fst q - fst p < 0)
   \<and> (snd (navTouchend [q] (navTouchstart [p] h)) = SnapBack \<longleftrightarrow>
      \<not> (\<bar>snd q - snd p\<bar> \<le> 60 \<and> \<bar>fst q - fst p\<bar> \<ge> 40))"
  unfolding navTouch_eq by auto

section \<open>Properties of the pages\<close>

subsection \<open>What the handlers change\<close>

lemma upsertEntry_fields:
  "localStorage (upsertEntry d w t s) = Some (stringify (entries (upsertEntry d w t s)))"
  by (simp add: upsertEntry_def saveEntries_def)

lemma upsertEntry_nav [simp]:
  fixes s :: nav
  shows "selectedISO (upsertEntry d w t s) = selectedISO s"
    "weightInput (upsertEntry d w t s) = weightInput s"
    "statusText (upsertEntry d w t s) = statusText s"
  by (simp_all add: upsertEntry_def saveEntries_def)

lemma upsertEntry_app [simp]:
  fixes s :: app
  shows "selectedISO (upsertEntry d w t s) = selectedISO s"
    "weightInput (upsertEntry d w t s) = weightInput s"
  by (simp_all add: upsertEntry_def saveEntries_def)

lemma autoSave_quiet:
  "fst (autoSaveIfValid True clk s) =
     (case parseWeight (weightInput s) of
        None \<Rightarrow> s
      | Some w \<Rightarrow> upsertEntry (selectedISO s) w (dateNow clk) s)"
  by (simp add: autoSaveIfValid_def Let_def split: option.splits)

lemma autoSave_selected [simp]: "selectedISO (fst (autoSaveIfValid q clk s)) = selectedISO s"
  by (simp add: autoSaveIfValid_def Let_def setStatus_def split: option.splits)

lemma autoSave_entries:
  "entries (fst (autoSaveIfValid q clk s)) =
     (case parseWeight (weightInput s) of
        None \<Rightarrow> entries s
      | Some w \<Rightarrow> entries (upsertEntry (selectedISO s) w (dateNow clk) s))"
  by (simp add: autoSaveIfValid_def Let_def setStatus_def split: option.splits)

lemma shiftDay_selected:
  "selectedISO (shiftDay k clk s) =
     (if isFutureISODate clk (shiftISO (selectedISO s) k) then selectedISO s
      else shiftISO (selectedISO s) k)"
  by (simp add: shiftDay_def Let_def renderAll_def fillWeightForSelectedDate_def)

lemma shiftDay_store [simp]:
  "entries (shiftDay k clk s) = entries s" "localStorage (shiftDay k clk s) = localStorage s"
  "statusText (shiftDay k clk s) = statusText s"
  by (simp_all add: shiftDay_def Let_def renderAll_def fillWeightForSelectedDate_def)

lemma shiftSelectedDay_selected:
  "selectedISO (shiftSelectedDay k clk a) =
     (if isFutureISODate clk (shiftISO (selectedISO a) k) then selectedISO a
      else shiftISO (selectedISO a) k)"
  by (simp add: shiftSelectedDay_def Let_def renderAllApp_def renderDateLabel_def setStatus_def
      setSaveButtonState_def)

lemma shiftSelectedDay_store [simp]:
  "entries (shiftSelectedDay k clk a) = entries a"
  "localStorage (shiftSelectedDay k clk a) = localStorage a"
  by (simp_all add: shiftSelectedDay_def Let_def renderAllApp_def renderDateLabel_def
      setStatus_def setSaveButtonState_def)

lemma dateChanged_selected:
  "selectedISO (dateChanged v clk a) =
     (if v = [] \<or> isFutureISODate clk v then selectedISO a else v)"
  by (simp add: dateChanged_def Let_def renderAllApp_def renderDateLabel_def setStatus_def
      setSaveButtonState_def)

lemma dateChanged_store [simp]:
  "entries (dateChanged v clk a) = entries a" "localStorage (dateChanged v clk a) = localStorage a"
  by (simp_all add: dateChanged_def Let_def renderAllApp_def renderDateLabel_def setStatus_def
      setSaveButtonState_def)

lemma onSave_selected [simp]: "selectedISO (onSave clk a) = selectedISO a"
  by (simp add: onSave_def Let_def renderAllApp_def renderDateLabel_def setStatus_def
      setSaveButtonState_def split: option.splits)

lemma onSave_entries:
  "entries (onSave clk a) = entries a
   \<or> (\<exists>w. entries (onSave clk a) = entries (upsertEntry (selectedISO a) w (dateNow clk) a))"
  by (auto simp: onSave_def Let_def renderAllApp_def renderDateLabel_def setStatus_def
      setSaveButtonState_def upsertEntry_def saveEntries_def split: option.splits)

lemma initMass_selected [simp]: "selectedISO (initMass clk raw) = todayISODate clk"
  by (simp add: initMass_def Let_def renderAll_def fillWeightForSelectedDate_def saveEntries_def)

lemma initApp_selected [simp]: "selectedISO (initApp clk raw) = todayISODate clk"
  by (simp add: initApp_def Let_def renderAllApp_def renderDateLabel_def saveEntries_def
      setSaveButtonState_def)

lemma stepMass_selected:
  "selectedISO (stepMass clk ev s) = selectedISO s
   \<or> (selectedISO (stepMass clk ev s) \<noteq> selectedISO s
       \<and> \<not> isFutureISODate clk (selectedISO (stepMass clk ev s)))"
  by (cases ev) (auto simp: stepMass_def commitSwipe_def shiftDay_selected)

lemma stepApp_selected:
  "selectedISO (stepApp clk ev a) = selectedISO a
   \<or> (selectedISO (stepApp clk ev a) \<noteq> selectedISO a
       \<and> \<not> isFutureISODate clk (selectedISO (stepApp clk ev a)))"
  by (cases ev)
    (auto simp: stepApp_def shiftSelectedDay_selected dateChanged_selected setStatus_def
      setSaveButtonState_def)

lemma reachMass_plausible: "reachMass raw clk s \<Longrightarrow> plausibleClock clk"
  by (induction rule: reachMass.induct) simp_all

lemma reachApp_plausible: "reachApp raw clk a \<Longrightarrow> plausibleClock clk"
  by (induction rule: reachApp.induct) simp_all

lemma reachMass_not_future: "reachMass raw clk s \<Longrightarrow> \<not> isFutureISODate clk (selectedISO s)"
proof (induction rule: reachMass.induct)
  case (start clk)
  then show ?case by (simp add: isFuture_today)
next
  case (step clk s clk' ev)
  have "\<not> isFutureISODate clk' (selectedISO s)"
    using isFuture_mono [OF reachMass_plausible [OF step.hyps(1)] step.hyps(2,3)] step.IH by blast
  then show ?case
    using stepMass_selected [of clk' ev s] by auto
qed

lemma reachApp_not_future: "reachApp raw clk a \<Longrightarrow> \<not> isFutureISODate clk (selectedISO a)"
proof (induction rule: reachApp.induct)
  case (startApp clk)
  then show ?case by (simp add: isFuture_today)
next
  case (stepApp clk s clk' ev)
  have "\<not> isFutureISODate clk' (selectedISO s)"
    using isFuture_mono [OF reachApp_plausible [OF stepApp.hyps(1)] stepApp.hyps(2,3)] stepApp.IH
    by blast
  then show ?case
    using stepApp_selected [of clk' ev s] by auto
qed

subsection \<open>The store invariant\<close>

lemma distinct_map_sort_key: "distinct (map f (sort_key f xs)) = distinct (map f xs)"
  by (induction xs) (simp_all add: distinct_insort_key)

lemma sortEntries_Nil [simp]: "sortEntries es = [] \<longleftrightarrow> es = []"
  unfolding sortEntries_def by (metis length_sort length_0_conv)

lemma sorted_sortEntries: "sorted (map entryDate (sortEntries es))"
  by (simp add: sortEntries_def)

lemma distinct_sortEntries:
  "distinct (map entryDate (sortEntries es)) = distinct (map entryDate es)"
  by (simp add: sortEntries_def distinct_map_sort_key)

lemma sorted_upsertEntry: "sorted (map entryDate (entries (upsertEntry d w t s)))"
  by (simp add: entries_upsertEntry sorted_sortEntries)

lemma distinct_upsertEntry:
  "distinct (map entryDate (entries s)) \<Longrightarrow>
   distinct (map entryDate (entries (upsertEntry d w t s)))"
  by (auto simp: entries_upsertEntry distinct_sortEntries distinct_map_filter)

lemma loadEntries_days: "map entryDate (loadEntries t raw) = map entryDate (loadEntries 0 raw)"
  by (simp add: loadEntries_def toEntry_def split: option.splits json.splits)

lemma seedMass_days:
  "map entryDate (seedMass clk) =
     map (shiftISO (todayISODate clk)) [- 6, - 4, - 2, 0]"
  by (simp add: seedMass_def Let_def)

lemma seedApp_days:
  "map entryDate (seedApp clk) =
     map (shiftISO (todayISODate clk)) [- 14, - 10, - 7, - 3]"
  by (simp add: seedApp_def Let_def)

lemma shifts_distinct:
  assumes "plausibleClock clk" "distinct ks" "\<forall>k\<in>set ks. \<bar>k\<bar> \<le> 1000"
  shows "distinct (map (shiftISO (todayISODate clk)) ks)"
proof -
  have "inj_on (shiftISO (todayISODate clk)) (set ks)"
    using shiftISO_today_inj [OF assms(1)] assms(3) by (auto simp: inj_on_def)
  with assms(2) show ?thesis
    by (simp add: distinct_map)
qed

lemma seedMass_distinct: "plausibleClock clk \<Longrightarrow> distinct (map entryDate (seedMass clk))"
  unfolding seedMass_days by (rule shifts_distinct) simp_all

lemma seedApp_distinct: "plausibleClock clk \<Longrightarrow> distinct (map entryDate (seedApp clk))"
  unfolding seedApp_days by (rule shifts_distinct) simp_all

lemma initMass_entries:
  "entries (initMass clk raw) =
     (if loadEntries (dateNow clk) raw = [] then sortEntries (seedMass clk)
      else sortEntries (loadEntries (dateNow clk) raw))"
  by (simp add: initMass_def Let_def renderAll_def fillWeightForSelectedDate_def saveEntries_def)

lemma initApp_entries:
  "entries (initApp clk raw) =
     (if loadEntries (dateNow clk) raw = [] then sortEntries (seedApp clk)
      else sortEntries (loadEntries (dateNow clk) raw))"
  by (simp add: initApp_def Let_def renderAllApp_def renderDateLabel_def saveEntries_def
      setSaveButtonState_def)

lemma initFirst_entries:
  "entries (initFirst clk raw) =
     (if loadEntries (dateNow clk) raw = [] then sortEntries (seedApp clk)
      else sortEntries (loadEntries (dateNow clk) raw))"
  by (simp add: initFirst_def Let_def saveEntries_def setSaveButtonState_def)

lemma stepMass_entries:
  "entries (stepMass clk ev s) = entries s
   \<or> (\<exists>w. entries (stepMass clk ev s) = entries (upsertEntry (selectedISO s) w (dateNow clk) s))"
  by (cases ev)
    (auto simp: stepMass_def commitSwipe_def autoSave_entries split: option.splits)

lemma stepApp_entries:
  "entries (stepApp clk ev a) = entries a
   \<or> (\<exists>w. entries (stepApp clk ev a) = entries (upsertEntry (selectedISO a) w (dateNow clk) a))"
  using onSave_entries [of clk a]
  by (cases ev) (auto simp: stepApp_def setStatus_def setSaveButtonState_def)

lemma reachMass_sorted: "reachMass raw clk s \<Longrightarrow> sorted (map entryDate (entries s))"
proof (induction rule: reachMass.induct)
  case (start clk)
  show ?case by (simp add: initMass_entries sorted_sortEntries)
next
  case (step clk s clk' ev)
  then show ?case
    using stepMass_entries [of clk' ev s] sorted_upsertEntry by metis
qed

lemma reachApp_sorted: "reachApp raw clk a \<Longrightarrow> sorted (map entryDate (entries a))"
proof (induction rule: reachApp.induct)
  case (startApp clk)
  show ?case by (simp add: initApp_entries sorted_sortEntries)
next
  case (stepApp clk s clk' ev)
  then show ?case
    using stepApp_entries [of clk' ev s] sorted_upsertEntry by metis
qed

lemma reachMass_distinct:
  "reachMass raw clk s \<Longrightarrow> distinct (map entryDate (loadEntries 0 raw)) \<Longrightarrow>
   distinct (map entryDate (entries s))"
proof (induction rule: reachMass.induct)
  case (start clk)
  then show ?case
    using loadEntries_days [of "dateNow clk" raw]
    by (simp add: initMass_entries distinct_sortEntries seedMass_distinct)
next
  case (step clk s clk' ev)
  then show ?case
    using stepMass_entries [of clk' ev s] distinct_upsertEntry by metis
qed

lemma reachApp_distinct:
  "reachApp raw clk a \<Longrightarrow> distinct (map entryDate (loadEntries 0 raw)) \<Longrightarrow>
   distinct (map entryDate (entries a))"
proof (induction rule: reachApp.induct)
  case (startApp clk)
  then show ?case
    using loadEntries_days [of "dateNow clk" raw]
    by (simp add: initApp_entries distinct_sortEntries seedApp_distinct)
next
  case (stepApp clk s clk' ev)
  then show ?case
    using stepApp_entries [of clk' ev s] distinct_upsertEntry by metis
qed

subsection \<open>Loading and seeding\<close>

lemma loadEntries_stringify: "loadEntries t (Some (stringify es)) = es"
proof -
  have v: "validRecord (JObj [(''entryDate'', JStr d), (''weight'', JNum w), (''createdAt'', JNum c)])"
    for d w c
    by (simp add: validRecord_def truthy_def getProp_def)
  have e: "toEntry t (JObj [(''entryDate'', JStr (entryDate x)), (''weight'', JNum (weight x)),
        (''createdAt'', JNum (createdAt x))]) = x" for x :: entry
    by (simp add: toEntry_def getProp_def)
  show ?thesis
    by (simp add: loadEntries_def stringify_def filter_map o_def v e map_idI)
qed

lemma loadEntries_nothing:
  "loadEntries t None = [] \<and> loadEntries t (Some (JArr [])) = []
   \<and> loadEntries t (Some JNull) = [] \<and> loadEntries t (Some (JObj kvs)) = []
   \<and> loadEntries t (Some (JStr x)) = [] \<and> loadEntries t (Some (JNum n)) = []
   \<and> loadEntries t (Some (JBool b)) = []"
  by (simp add: loadEntries_def)

lemma initMass_storage:
  "localStorage (initMass clk raw) =
     (if loadEntries (dateNow clk) raw = [] then Some (stringify (entries (initMass clk raw)))
      else raw)"
  by (simp add: initMass_def Let_def renderAll_def fillWeightForSelectedDate_def saveEntries_def)

lemma initApp_storage:
  "localStorage (initApp clk raw) =
     (if loadEntries (dateNow clk) raw = [] then Some (stringify (entries (initApp clk raw)))
      else raw)"
  by (simp add: initApp_def Let_def renderAllApp_def renderDateLabel_def saveEntries_def
      setSaveButtonState_def)

lemma initFirst_storage:
  "localStorage (initFirst clk raw) =
     (if loadEntries (dateNow clk) raw = [] then Some (stringify (entries (initFirst clk raw)))
      else raw)"
  by (simp add: initFirst_def Let_def saveEntries_def setSaveButtonState_def)

lemma length_sortEntries [simp]: "length (sortEntries es) = length es"
  by (simp add: sortEntries_def)

lemma length_seeds: "length (seedMass clk) = 4 \<and> length (seedApp clk) = 4"
  by (simp add: seedMass_def seedApp_def Let_def)

subsection \<open>Swipes and the day they leave\<close>

lemma findEntry_upsertEntry:
  "findEntry d (upsertEntry d w t s) = Some \<lparr>entryDate = d, weight = w, createdAt = of_int t\<rparr>"
  by (simp add: findEntry_def find_filter_conv filter_day_upsertEntry)

lemma commitSwipe_entries:
  "entries (commitSwipe dir clk s) =
     (case parseWeight (weightInput s) of
        None \<Rightarrow> entries s
      | Some w \<Rightarrow> entries (upsertEntry (selectedISO s) w (dateNow clk) s))"
  by (simp add: commitSwipe_def autoSave_entries)

lemma commitSwipe_storage:
  "localStorage (commitSwipe dir clk s) =
     (case parseWeight (weightInput s) of
        None \<Rightarrow> localStorage s
      | Some w \<Rightarrow> Some (stringify (entries (upsertEntry (selectedISO s) w (dateNow clk) s))))"
  by (simp add: commitSwipe_def autoSave_quiet upsertEntry_fields split: option.splits)

lemma commitSwipe_status: "statusText (commitSwipe dir clk s) = statusText s"
  by (simp add: commitSwipe_def autoSave_quiet split: option.splits)

lemma commitSwipe_selected:
  "selectedISO (commitSwipe dir clk s) =
     (if isFutureISODate clk (shiftISO (selectedISO s) (swipeDelta dir)) then selectedISO s
      else shiftISO (selectedISO s) (swipeDelta dir))"
  by (simp add: commitSwipe_def shiftDay_selected)

lemma today_is_shift_zero: "plausibleClock clk \<Longrightarrow> shiftISO (todayISODate clk) 0 = todayISODate clk"
  using shiftISO_today [of clk 0] by (simp add: addDays_zero todayISODate_def)

lemma today_not_seeded:
  assumes "plausibleClock clk"
  shows "todayISODate clk \<notin> set (map entryDate (seedApp clk))"
proof
  assume "todayISODate clk \<in> set (map entryDate (seedApp clk))"
  then have "\<exists>k\<in>{- 14, - 10, - 7, - 3 :: int}. todayISODate clk = shiftISO (todayISODate clk) k"
    unfolding seedApp_days by auto
  then obtain k where k: "k \<in> {- 14, - 10, - 7, - 3 :: int}"
      "todayISODate clk = shiftISO (todayISODate clk) k"
    by blast
  then have "shiftISO (todayISODate clk) k = shiftISO (todayISODate clk) 0"
    using today_is_shift_zero [OF assms] by simp
  then have "k = 0"
    using shiftISO_today_inj [OF assms, of k 0] k(1) by auto
  with k(1) show False by simp
qed

lemma findEntry_today_initApp:
  assumes "plausibleClock clk" "loadEntries (dateNow clk) raw = []"
  shows "findEntry (todayISODate clk) (initApp clk raw) = None"
  using today_not_seeded [OF assms(1)] assms(2)
  by (auto simp: findEntry_def initApp_entries find_None_iff sortEntries_def image_iff)

lemma shiftSelectedDay_blocked:
  "isFutureISODate clk (shiftISO (selectedISO a) k) \<Longrightarrow> shiftSelectedDay k clk a = a"
  by (simp add: shiftSelectedDay_def)

lemma shiftDay_blocked:
  "isFutureISODate clk (shiftISO (selectedISO s) k) \<Longrightarrow> shiftDay k clk s = s"
  by (simp add: shiftDay_def)

lemma initApp_page:
  "statusText (initApp clk raw) = [] \<and> saveButton (initApp clk raw) = Idle
   \<and> weightInput (initApp clk raw) = [] \<and> dateInput (initApp clk raw) = todayISODate clk"
  by (simp add: initApp_def Let_def renderAllApp_def renderDateLabel_def saveEntries_def
      setSaveButtonState_def)

lemma initMass_page: "statusText (initMass clk raw) = []"
  by (simp add: initMass_def Let_def renderAll_def fillWeightForSelectedDate_def saveEntries_def)

lemma example_future: "isFutureISODate exampleClock ''2024-03-02''"
  by code_simp

lemma example_past: "\<not> isFutureISODate exampleClock ''2024-02-02''"
  by code_simp

subsection \<open>The example clock\<close>

lemma exampleClock_plausible: "plausibleClock exampleClock"
  by (simp add: plausibleClock_def exampleClock_def validDate_def daysInMonth_def)

lemma exampleClock_today: "todayISODate exampleClock = ''2024-03-01''"
  by code_simp

lemma notBefore_refl: "notBefore clk clk"
  by (simp add: notBefore_def)

lemma seed_week_example:
  "shiftISO ''2024-03-01'' (- 6) = ''2024-02-24''" "shiftISO ''2024-03-01'' (- 4) = ''2024-02-26''"
  "shiftISO ''2024-03-01'' (- 2) = ''2024-02-28''" "shiftISO ''2024-03-01'' 0 = ''2024-03-01''"
  using weekDays_eq [of "''2024-03-01''"] by (simp_all add: weekDays_example)


lemma example_text: "formatISO \<lparr>getFullYear = 2024, getMonth = 2, getDate = 1\<rparr> = ''2024-03-01''"
  by code_simp

section \<open>The claims about the chart\<close>

text \<open>
  Claim C6. For every selected day \<open>e\<close> and store \<open>s\<close> the window has the seven days
  \<open>e - 6, \<dots>, e\<close> in this order and one point for each. A day for which the store holds
  a weight shows it; a day without one shows the weight of the nearest earlier day
  of the window that has one; a day before the first such day is absent. A window
  whose only weight is on its third day is absent on days 1 and 2 and shows that weight
  on days 3 to 7. (\<open>recorded e s i\<close> is the weight held for day \<open>i\<close> of the window,
  counted from 0; with one entry per day it is the weight of that day's entry. For a
  well-formed \<open>e\<close> the days are consecutive calendar days.)
\<close>

theorem week_window_forward_fill:
  "weekDays e = [shiftISO e (- 6), shiftISO e (- 5), shiftISO e (- 4), shiftISO e (- 3),
                 shiftISO e (- 2), shiftISO e (- 1), shiftISO e 0]
   \<and> length (seriesValues (getWeekSeries e s)) = 7
   \<and> (\<forall>i j w. i < 7 \<and> j \<le> i \<and> recorded e s j = Some w
          \<and> (\<forall>k. j < k \<and> k \<le> i \<longrightarrow> recorded e s k = None)
        \<longrightarrow> seriesValues (getWeekSeries e s) ! i = Some w)
   \<and> (\<forall>i. i < 7 \<and> (\<forall>j\<le>i. recorded e s j = None)
        \<longrightarrow> seriesValues (getWeekSeries e s) ! i = None)
   \<and> (\<forall>w. recorded e s 2 = Some w \<and> (\<forall>j<7. j \<noteq> 2 \<longrightarrow> recorded e s j = None)
        \<longrightarrow> seriesValues (getWeekSeries e s)
            = [None, None, Some w, Some w, Some w, Some w, Some w])
   \<and> (distinct (map entryDate (entries s))
        \<longrightarrow> (\<forall>i<7. recorded e s i = map_option weight (findEntry (weekDays e ! i) s)))
   \<and> (\<forall>c. validDate c \<and> 100 \<le> getFullYear c \<and> e = formatISO c
        \<longrightarrow> (\<forall>i<7. weekDays e ! i = formatISO (addDays c (int i - 6))
                   \<and> dayNumber (addDays c (int i - 6)) = dayNumber c - 6 + int i))"
proof -
  let ?vs = "seriesValues (getWeekSeries e s)"
  have carry: "\<forall>i j w. i < 7 \<and> j \<le> i \<and> recorded e s j = Some w
          \<and> (\<forall>k. j < k \<and> k \<le> i \<longrightarrow> recorded e s k = None) \<longrightarrow> ?vs ! i = Some w"
  proof (intro allI impI)
    fix i j w
    assume a: "i < 7 \<and> j \<le> i \<and> recorded e s j = Some w
          \<and> (\<forall>k. j < k \<and> k \<le> i \<longrightarrow> recorded e s k = None)"
    then have "\<forall>k. j < k \<and> k \<le> i \<longrightarrow> map (recorded e s) [0..<7] ! k = None"
      by auto
    moreover have "map (recorded e s) [0..<7] ! j = Some w"
      using a by auto
    ultimately show "?vs ! i = Some w"
      unfolding seriesValues_eq
      using forwardFill_carry [of i "map (recorded e s) [0..<7]" j w None] a by simp
  qed
  have absent: "\<forall>i. i < 7 \<and> (\<forall>j\<le>i. recorded e s j = None) \<longrightarrow> ?vs ! i = None"
  proof (intro allI impI)
    fix i
    assume a: "i < 7 \<and> (\<forall>j\<le>i. recorded e s j = None)"
    then have "\<forall>j\<le>i. map (recorded e s) [0..<7] ! j = None"
      by auto
    then show "?vs ! i = None"
      unfolding seriesValues_eq
      using forwardFill_absent [of i "map (recorded e s) [0..<7]" None] a by simp
  qed
  have one: "\<forall>w. recorded e s 2 = Some w \<and> (\<forall>j<7. j \<noteq> 2 \<longrightarrow> recorded e s j = None)
        \<longrightarrow> ?vs = [None, None, Some w, Some w, Some w, Some w, Some w]"
    using series_one_entry [of e s] by blast
  have uniq: "distinct (map entryDate (entries s))
        \<longrightarrow> (\<forall>i<7. recorded e s i = map_option weight (findEntry (weekDays e ! i) s))"
    by (simp add: recorded_def findEntry_def weightMap_distinct)
  have chrono: "\<forall>c. validDate c \<and> 100 \<le> getFullYear c \<and> e = formatISO c
        \<longrightarrow> (\<forall>i<7. weekDays e ! i = formatISO (addDays c (int i - 6))
                   \<and> dayNumber (addDays c (int i - 6)) = dayNumber c - 6 + int i)"
    using weekDays_nth by blast
  show ?thesis
    by (rule conjI [OF weekDays_eq conjI [OF length_seriesValues conjI [OF carry
          conjI [OF absent conjI [OF one conjI [OF uniq chrono]]]]]])
qed

theorem week_window_forward_fill_witness:
  "seriesValues (getWeekSeries ''2024-03-01''
      \<lparr>entries = [\<lparr>entryDate = ''2024-02-26'', weight = 180, createdAt = 0\<rparr>],
        localStorage = None\<rparr>)
     = [None, None, Some 180, Some 180, Some 180, Some 180, Some 180]
   \<and> seriesValues (getWeekSeries ''2024-03-01''
      \<lparr>entries = [\<lparr>entryDate = ''2024-02-26'', weight = 180, createdAt = 0\<rparr>],
        localStorage = None\<rparr>) ! 4 = Some 180
   \<and> seriesValues (getWeekSeries ''2024-03-01''
      \<lparr>entries = [\<lparr>entryDate = ''2024-02-26'', weight = 180, createdAt = 0\<rparr>],
        localStorage = None\<rparr>) ! 1 = None
   \<and> recorded ''2024-03-01''
      \<lparr>entries = [\<lparr>entryDate = ''2024-02-26'', weight = 180, createdAt = 0\<rparr>],
        localStorage = None\<rparr> 2
       = map_option weight (findEntry (weekDays ''2024-03-01'' ! 2)
           \<lparr>entries = [\<lparr>entryDate = ''2024-02-26'', weight = 180, createdAt = 0\<rparr>],
             localStorage = None\<rparr>)
   \<and> weekDays ''2024-03-01'' ! 2
       = formatISO (addDays \<lparr>getFullYear = 2024, getMonth = 2, getDate = 1\<rparr> (int 2 - 6))
   \<and> dayNumber (addDays \<lparr>getFullYear = 2024, getMonth = 2, getDate = 1\<rparr> (int 2 - 6))
       = dayNumber \<lparr>getFullYear = 2024, getMonth = 2, getDate = 1\<rparr> - 6 + int 2
   \<and> weekDays ''2024-03-01'' ! 2 = ''2024-02-26''
   \<and> weekDays ''2024-03-01'' ! 6 = ''2024-03-01''"
proof -
  let ?s = "\<lparr>entries = [\<lparr>entryDate = ''2024-02-26'', weight = 180, createdAt = 0\<rparr>],
        localStorage = None\<rparr>"
  let ?c = "\<lparr>getFullYear = 2024, getMonth = 2, getDate = 1\<rparr>"
  let ?vs = "seriesValues (getWeekSeries ''2024-03-01'' ?s)"
  have r: "map (recorded ''2024-03-01'' ?s) [0, 1, 2, 3, 4, 5, 6]
      = [None, None, Some 180, None, None, None, None]"
    by (simp add: recorded_def weekDays_example weightMap_def)
  have a: "recorded ''2024-03-01'' ?s 2 = Some 180"
    using r by simp
  have b: "\<forall>j<7. j \<noteq> 2 \<longrightarrow> recorded ''2024-03-01'' ?s j = None"
  proof (intro allI impI)
    fix j :: nat assume "j < 7" "j \<noteq> 2"
    then have "j = 0 \<or> j = 1 \<or> j = 3 \<or> j = 4 \<or> j = 5 \<or> j = 6" by arith
    with r show "recorded ''2024-03-01'' ?s j = None" by auto
  qed
  have d: "weekDays ''2024-03-01'' ! 2 = ''2024-02-26''" "weekDays ''2024-03-01'' ! 6 = ''2024-03-01''"
    by (simp_all add: weekDays_example)
  note t = week_window_forward_fill [of "''2024-03-01''" ?s]
  note carry = t [THEN conjunct2, THEN conjunct2, THEN conjunct1]
  note absent = t [THEN conjunct2, THEN conjunct2, THEN conjunct2, THEN conjunct1]
  note one = t [THEN conjunct2, THEN conjunct2, THEN conjunct2, THEN conjunct2, THEN conjunct1]
  note uniq = t [THEN conjunct2, THEN conjunct2, THEN conjunct2, THEN conjunct2, THEN conjunct2,
      THEN conjunct1]
  note chrono = t [THEN conjunct2, THEN conjunct2, THEN conjunct2, THEN conjunct2, THEN conjunct2,
      THEN conjunct2]
  from one a b have v1: "?vs = [None, None, Some 180, Some 180, Some 180, Some 180, Some 180]"
    by blast
  have k: "\<forall>k. 2 < k \<and> k \<le> 4 \<longrightarrow> recorded ''2024-03-01'' ?s k = None"
    using b by auto
  from carry [rule_format, of 4 2 180] a k have v2: "?vs ! 4 = Some 180"
    by simp
  have "\<forall>j\<le>1. recorded ''2024-03-01'' ?s j = None"
    using b by auto
  with absent [rule_format, of 1] have v3: "?vs ! 1 = None"
    by simp
  have "distinct (map entryDate (entries ?s))"
    by simp
  with uniq have v4: "recorded ''2024-03-01'' ?s 2
       = map_option weight (findEntry (weekDays ''2024-03-01'' ! 2) ?s)"
    by simp
  have c: "validDate ?c" "100 \<le> getFullYear ?c" "''2024-03-01'' = formatISO ?c"
    by (simp_all add: validDate_def daysInMonth_def example_text)
  from chrono [rule_format, of ?c 2] c
  have v5: "weekDays ''2024-03-01'' ! 2 = formatISO (addDays ?c (int 2 - 6))"
      "dayNumber (addDays ?c (int 2 - 6)) = dayNumber ?c - 6 + int 2"
    by simp_all
  show ?thesis
    by (rule conjI [OF v1 conjI [OF v2 conjI [OF v3 conjI [OF v4 conjI [OF v5(1)
          conjI [OF v5(2) conjI [OF d(1) d(2)]]]]]]])
qed




section \<open>The claims about the selected day\<close>



section \<open>The claim about the first start\<close>

text \<open>
  Claim C10. Whatever the item of the storage is, the session never starts with an
  empty store. When the load gives no entry (no item, an item that does not parse, no
  array, an empty array, or no valid record) \<^verbatim>\<open>init\<close> puts its four seed entries,
  dated by \<^verbatim>\<open>shiftISO\<close> from today, into the store and writes the store to the storage
  at once; what it wrote loads back as the store. This holds for the \<^verbatim>\<open>init\<close> of each
  of the three variants.
\<close>

theorem init_seeds_empty_store:
  "entries (initMass clk raw) \<noteq> [] \<and> entries (initApp clk raw) \<noteq> []
   \<and> entries (initFirst clk raw) \<noteq> []
   \<and> (loadEntries (dateNow clk) raw = [] \<longrightarrow>
        entries (initMass clk raw) = sortEntries (seedMass clk)
        \<and> entries (initApp clk raw) = sortEntries (seedApp clk)
        \<and> entries (initFirst clk raw) = sortEntries (seedApp clk)
        \<and> length (entries (initMass clk raw)) = 4
        \<and> length (entries (initApp clk raw)) = 4
        \<and> length (entries (initFirst clk raw)) = 4
        \<and> localStorage (initMass clk raw) = Some (stringify (entries (initMass clk raw)))
        \<and> localStorage (initApp clk raw) = Some (stringify (entries (initApp clk raw)))
        \<and> localStorage (initFirst clk raw) = Some (stringify (entries (initFirst clk raw))))
   \<and> map entryDate (seedMass clk) = map (shiftISO (todayISODate clk)) [- 6, - 4, - 2, 0]
   \<and> map entryDate (seedApp clk) = map (shiftISO (todayISODate clk)) [- 14, - 10, - 7, - 3]
   \<and> loadEntries t None = [] \<and> loadEntries t (Some (JArr [])) = []
   \<and> loadEntries t (Some (JObj kvs)) = []
   \<and> loadEntries t (Some (stringify es)) = es"
proof -
  have ne: "entries (initMass clk raw) \<noteq> []" "entries (initApp clk raw) \<noteq> []"
      "entries (initFirst clk raw) \<noteq> []"
    by (simp_all add: initMass_entries initApp_entries initFirst_entries seedMass_def
        seedApp_def Let_def)
  have em: "loadEntries (dateNow clk) raw = [] \<longrightarrow>
        entries (initMass clk raw) = sortEntries (seedMass clk)
        \<and> entries (initApp clk raw) = sortEntries (seedApp clk)
        \<and> entries (initFirst clk raw) = sortEntries (seedApp clk)
        \<and> length (entries (initMass clk raw)) = 4
        \<and> length (entries (initApp clk raw)) = 4
        \<and> length (entries (initFirst clk raw)) = 4
        \<and> localStorage (initMass clk raw) = Some (stringify (entries (initMass clk raw)))
        \<and> localStorage (initApp clk raw) = Some (stringify (entries (initApp clk raw)))
        \<and> localStorage (initFirst clk raw) = Some (stringify (entries (initFirst clk raw)))"
    by (simp add: initMass_entries initApp_entries initFirst_entries initMass_storage
        initApp_storage initFirst_storage length_seeds)
  note l = loadEntries_nothing [of t kvs]
  show ?thesis
    by (rule conjI [OF ne(1) conjI [OF ne(2) conjI [OF ne(3) conjI [OF em
          conjI [OF seedMass_days conjI [OF seedApp_days conjI [OF l [THEN conjunct1]
          conjI [OF l [THEN conjunct2, THEN conjunct1]
          conjI [OF l [THEN conjunct2, THEN conjunct2, THEN conjunct2, THEN conjunct1]
            loadEntries_stringify]]]]]]]]])
qed

theorem init_seeds_empty_store_witness:
  "entries (initMass exampleClock None) = sortEntries (seedMass exampleClock)
   \<and> length (entries (initMass exampleClock None)) = 4
   \<and> localStorage (initMass exampleClock None)
       = Some (stringify (entries (initMass exampleClock None)))
   \<and> map entryDate (seedMass exampleClock)
       = [''2024-02-24'', ''2024-02-26'', ''2024-02-28'', ''2024-03-01'']"
proof -
  note t = init_seeds_empty_store [of exampleClock None 0 "[]" "[]"]
  have l: "loadEntries (dateNow exampleClock) None = []"
    by (simp add: loadEntries_def)
  from t [THEN conjunct2, THEN conjunct2, THEN conjunct2, THEN conjunct1] l
  have a: "entries (initMass exampleClock None) = sortEntries (seedMass exampleClock)"
      "length (entries (initMass exampleClock None)) = 4"
      "localStorage (initMass exampleClock None)
        = Some (stringify (entries (initMass exampleClock None)))"
    by blast+
  from t [THEN conjunct2, THEN conjunct2, THEN conjunct2, THEN conjunct2, THEN conjunct1]
  have b: "map entryDate (seedMass exampleClock)
       = [''2024-02-24'', ''2024-02-26'', ''2024-02-28'', ''2024-03-01'']"
    by (simp add: exampleClock_today seed_week_example)
  from a b show ?thesis
    by (intro conjI)
qed

section \<open>The claim about the store invariant\<close>


lemma load_two: "loadEntries t (Some (JArr [JObj [(''entryDate'', JStr ''2024-02-28''), (''weight'', JNum 180)],
                 JObj [(''entryDate'', JStr ''2024-02-28''), (''weight'', JNum 181)]]))
   = [\<lparr>entryDate = ''2024-02-28'', weight = 180, createdAt = of_int t\<rparr>,
      \<lparr>entryDate = ''2024-02-28'', weight = 181, createdAt = of_int t\<rparr>]"
  by (simp add: loadEntries_def validRecord_def truthy_def getProp_def toEntry_def)



section \<open>The claim about saving on navigation\<close>

text \<open>
  Claim C4, as the code has it. In \<^verbatim>\<open>part_001\<close> a committed swipe, to the next or to the
  previous day, first runs \<^verbatim>\<open>autoSaveIfValid\<close> on the day being left and then \<^verbatim>\<open>shiftDay\<close>:
  a staged text that parses is upserted for that day and persisted, one that does
  not parse changes neither the store nor the status line, and in both cases the
  selected day moves unless the new day is in the future. \<^verbatim>\<open>part_001\<close> has no date
  picker. In \<^verbatim>\<open>app.js\<close> neither a swipe nor the date picker touches the store.
\<close>

theorem swipe_saves_day_being_left:
  "commitSwipe dir clk s = shiftDay (swipeDelta dir) clk (fst (autoSaveIfValid True clk s))
   \<and> (\<forall>w. parseWeight (weightInput s) = Some w \<longrightarrow>
          fst (autoSaveIfValid True clk s) = upsertEntry (selectedISO s) w (dateNow clk) s
          \<and> findEntry (selectedISO s) (commitSwipe dir clk s)
              = Some \<lparr>entryDate = selectedISO s, weight = w, createdAt = of_int (dateNow clk)\<rparr>
          \<and> localStorage (commitSwipe dir clk s)
              = Some (stringify (entries (commitSwipe dir clk s))))
   \<and> (parseWeight (weightInput s) = None \<longrightarrow>
          fst (autoSaveIfValid True clk s) = s
          \<and> entries (commitSwipe dir clk s) = entries s
          \<and> localStorage (commitSwipe dir clk s) = localStorage s)
   \<and> statusText (commitSwipe dir clk s) = statusText s
   \<and> selectedISO (commitSwipe dir clk s)
       = (if isFutureISODate clk (shiftISO (selectedISO s) (swipeDelta dir)) then selectedISO s
          else shiftISO (selectedISO s) (swipeDelta dir))
   \<and> entries (shiftSelectedDay k clk a) = entries a
   \<and> localStorage (shiftSelectedDay k clk a) = localStorage a
   \<and> entries (dateChanged v clk a) = entries a
   \<and> localStorage (dateChanged v clk a) = localStorage a"
proof -
  have c: "commitSwipe dir clk s = shiftDay (swipeDelta dir) clk (fst (autoSaveIfValid True clk s))"
    by (simp add: commitSwipe_def)
  have v: "\<forall>w. parseWeight (weightInput s) = Some w \<longrightarrow>
          fst (autoSaveIfValid True clk s) = upsertEntry (selectedISO s) w (dateNow clk) s
          \<and> findEntry (selectedISO s) (commitSwipe dir clk s)
              = Some \<lparr>entryDate = selectedISO s, weight = w, createdAt = of_int (dateNow clk)\<rparr>
          \<and> localStorage (commitSwipe dir clk s)
              = Some (stringify (entries (commitSwipe dir clk s)))"
  proof (intro allI impI)
    fix w assume p: "parseWeight (weightInput s) = Some w"
    have e: "entries (commitSwipe dir clk s)
        = entries (upsertEntry (selectedISO s) w (dateNow clk) s)"
      using p by (simp add: commitSwipe_entries)
    have "findEntry (selectedISO s) (commitSwipe dir clk s)
        = findEntry (selectedISO s) (upsertEntry (selectedISO s) w (dateNow clk) s)"
      using e by (simp add: findEntry_def)
    then show "fst (autoSaveIfValid True clk s) = upsertEntry (selectedISO s) w (dateNow clk) s
          \<and> findEntry (selectedISO s) (commitSwipe dir clk s)
              = Some \<lparr>entryDate = selectedISO s, weight = w, createdAt = of_int (dateNow clk)\<rparr>
          \<and> localStorage (commitSwipe dir clk s)
              = Some (stringify (entries (commitSwipe dir clk s)))"
      using p e by (simp add: autoSave_quiet findEntry_upsertEntry commitSwipe_storage)
  qed
  have n: "parseWeight (weightInput s) = None \<longrightarrow>
          fst (autoSaveIfValid True clk s) = s
          \<and> entries (commitSwipe dir clk s) = entries s
          \<and> localStorage (commitSwipe dir clk s) = localStorage s"
    by (simp add: autoSave_quiet commitSwipe_entries commitSwipe_storage)
  show ?thesis
    by (rule conjI [OF c conjI [OF v conjI [OF n conjI [OF commitSwipe_status
          conjI [OF commitSwipe_selected conjI [OF shiftSelectedDay_store(1)
          conjI [OF shiftSelectedDay_store(2) conjI [OF dateChanged_store(1)
            dateChanged_store(2)]]]]]]]])
qed

theorem swipe_saves_day_being_left_witness:
  "findEntry ''2024-03-01''
      (commitSwipe SwipeRight exampleClock
         (stepMass exampleClock (Typed ''180,2'') (initMass exampleClock None)))
     = Some \<lparr>entryDate = ''2024-03-01'', weight = 1802 / 10, createdAt = 1709290000000\<rparr>
   \<and> entries (commitSwipe SwipeRight exampleClock
         (stepMass exampleClock (Typed ''abc'') (initMass exampleClock None)))
     = entries (initMass exampleClock None)"
proof -
  let ?s = "stepMass exampleClock (Typed ''180,2'') (initMass exampleClock None)"
  let ?z = "stepMass exampleClock (Typed ''abc'') (initMass exampleClock None)"
  have f: "weightInput ?s = ''180,2''" "selectedISO ?s = ''2024-03-01''"
      "weightInput ?z = ''abc''" "entries ?z = entries (initMass exampleClock None)"
    by (simp_all add: stepMass_def exampleClock_today)
  have p: "parseWeight (weightInput ?s) = Some (1802 / 10)"
    unfolding f by code_simp
  have q: "parseWeight (weightInput ?z) = None"
    unfolding f by code_simp
  have d: "dateNow exampleClock = 1709290000000"
    by (simp add: exampleClock_def)
  note t = swipe_saves_day_being_left [of SwipeRight exampleClock ?s 1 "initApp exampleClock None" "[]"]
  note u = swipe_saves_day_being_left [of SwipeRight exampleClock ?z 1 "initApp exampleClock None" "[]"]
  from t [THEN conjunct2, THEN conjunct1] p
  have "findEntry (selectedISO ?s) (commitSwipe SwipeRight exampleClock ?s)
     = Some \<lparr>entryDate = selectedISO ?s, weight = 1802 / 10,
             createdAt = of_int (dateNow exampleClock)\<rparr>"
    by blast
  then have a: "findEntry ''2024-03-01'' (commitSwipe SwipeRight exampleClock ?s)
     = Some \<lparr>entryDate = ''2024-03-01'', weight = 1802 / 10, createdAt = 1709290000000\<rparr>"
    by (simp only: f d of_int_numeral)
  from u [THEN conjunct2, THEN conjunct2, THEN conjunct1] q
  have "entries (commitSwipe SwipeRight exampleClock ?z) = entries ?z"
    by blast
  then have b: "entries (commitSwipe SwipeRight exampleClock ?z)
      = entries (initMass exampleClock None)"
    by (simp only: f)
  from a b show ?thesis
    by (intro conjI)
qed

theorem date_picker_leaves_without_saving:
  "parseWeightInput
      (weightInput (stepApp exampleClock (TypedApp ''180'') (initApp exampleClock None)))
     = Some 180
   \<and> selectedISO (stepApp exampleClock (TypedApp ''180'') (initApp exampleClock None))
     = ''2024-03-01''
   \<and> selectedISO (stepApp exampleClock (DatePicked ''2024-02-02'')
        (stepApp exampleClock (TypedApp ''180'') (initApp exampleClock None)))
     = ''2024-02-02''
   \<and> findEntry ''2024-03-01'' (stepApp exampleClock (DatePicked ''2024-02-02'')
        (stepApp exampleClock (TypedApp ''180'') (initApp exampleClock None)))
     = None"
proof -
  let ?i = "initApp exampleClock None"
  let ?s = "stepApp exampleClock (TypedApp ''180'') ?i"
  let ?t = "stepApp exampleClock (DatePicked ''2024-02-02'') ?s"
  have f: "weightInput ?s = ''180''" "selectedISO ?s = ''2024-03-01''" "entries ?s = entries ?i"
    by (simp_all add: stepApp_def setStatus_def setSaveButtonState_def exampleClock_today)
  have p: "parseWeightInput (weightInput ?s) = Some 180"
    unfolding f by code_simp
  have g: "selectedISO ?t = ''2024-02-02''" "entries ?t = entries ?i"
    using example_past
    by (simp_all add: stepApp_def dateChanged_selected f setStatus_def setSaveButtonState_def)
  have "findEntry (todayISODate exampleClock) ?i = None"
    by (rule findEntry_today_initApp [OF exampleClock_plausible]) (simp add: loadEntries_def)
  then have "findEntry ''2024-03-01'' ?t = None"
    using g(2) by (simp add: findEntry_def exampleClock_today)
  with p f(2) g(1) show ?thesis
    by (intro conjI)
qed

section \<open>The claim about the gestures\<close>

text \<open>
  Claim C9, as the code has it. The recogniser of \<^verbatim>\<open>part_001\<close> (\<^verbatim>\<open>addSwipe\<close>) commits a
  gesture that ends with the displacement \<open>(dx, dy)\<close> after the time \<open>t\<close> exactly when
  \<open>t \<le> 450\<close>, \<open>|dx| \<ge> 70\<close> and \<open>|dy| \<le> 90\<close>; it then goes to the previous day when
  \<open>dx > 0\<close> and to the next day when \<open>dx < 0\<close>; otherwise, and when the finger never
  moved, it snaps back. So \<open>dx = -80\<close>, \<open>dy = 5\<close> commits the next day after 200 ms and
  snaps back after 600 ms. The
  recogniser of \<^verbatim>\<open>app.js\<close> (\<^verbatim>\<open>addSwipeNavigation\<close>) has no time limit and other
  thresholds: it commits exactly when \<open>|dy| \<le> 60\<close> and \<open>|dx| \<ge> 40\<close>.
\<close>

theorem swipe_commit_rule:
  assumes "ps \<noteq> []"
  shows "(swipeGesture g p tStart ps tEnd = Commit SwipeRight \<longleftrightarrow>
            tEnd - tStart \<le> 450 \<and> \<bar>fst (last ps) - fst p\<bar> \<ge> 70 \<and> \<bar>snd (last ps) - snd p\<bar> \<le> 90
            \<and> fst (last ps) - fst p > 0)
       \<and> (swipeGesture g p tStart ps tEnd = Commit SwipeLeft \<longleftrightarrow>
            tEnd - tStart \<le> 450 \<and> \<bar>fst (last ps) - fst p\<bar> \<ge> 70 \<and> \<bar>snd (last ps) - snd p\<bar> \<le> 90
            \<and> fst (last ps) - fst p < 0)
       \<and> (swipeGesture g p tStart ps tEnd = SnapBack \<longleftrightarrow>
            \<not> (tEnd - tStart \<le> 450 \<and> \<bar>fst (last ps) - fst p\<bar> \<ge> 70
               \<and> \<bar>snd (last ps) - snd p\<bar> \<le> 90))
       \<and> swipeGesture g p tStart [] tEnd = SnapBack
       \<and> swipeDelta SwipeRight = - 1 \<and> swipeDelta SwipeLeft = 1
       \<and> swipeGesture g (x, y) tStart [(x - 80, y + 5)] (tStart + 200) = Commit SwipeLeft
       \<and> swipeGesture g (x, y) tStart [(x - 80, y + 5)] (tStart + 600) = SnapBack
       \<and> (snd (navTouchend [q] (navTouchstart [p] h)) = Commit SwipeRight \<longleftrightarrow>
            \<bar>snd q - snd p\<bar> \<le> 60 \<and> \<bar>fst q - fst p\<bar> \<ge> 40 \<and> fst q - fst p > 0)
       \<and> (snd (navTouchend [q] (navTouchstart [p] h)) = Commit SwipeLeft \<longleftrightarrow>
            \<bar>snd q - snd p\<bar> \<le> 60 \<and> \<bar>fst q - fst p\<bar> \<ge> 40 \<and> fst q - fst p < 0)
       \<and> (snd (navTouchend [q] (navTouchstart [p] h)) = SnapBack \<longleftrightarrow>
            \<not> (\<bar>snd q - snd p\<bar> \<le> 60 \<and> \<bar>fst q - fst p\<bar> \<ge> 40))"
proof -
  have e1: "swipeGesture g (x, y) tStart [(x - 80, y + 5)] (tStart + 200) = Commit SwipeLeft"
    by (simp add: swipeGesture_eq)
  have e2: "swipeGesture g (x, y) tStart [(x - 80, y + 5)] (tStart + 600) = SnapBack"
    by (simp add: swipeGesture_eq)
  have r: "swipeGesture g p tStart ps tEnd = Commit SwipeRight \<longleftrightarrow>
            tEnd - tStart \<le> 450 \<and> \<bar>fst (last ps) - fst p\<bar> \<ge> 70 \<and> \<bar>snd (last ps) - snd p\<bar> \<le> 90
            \<and> fst (last ps) - fst p > 0"
    unfolding swipeGesture_eq [OF assms] by auto
  have l: "swipeGesture g p tStart ps tEnd = Commit SwipeLeft \<longleftrightarrow>
            tEnd - tStart \<le> 450 \<and> \<bar>fst (last ps) - fst p\<bar> \<ge> 70 \<and> \<bar>snd (last ps) - snd p\<bar> \<le> 90
            \<and> fst (last ps) - fst p < 0"
    unfolding swipeGesture_eq [OF assms] by auto
  have s: "swipeGesture g p tStart ps tEnd = SnapBack \<longleftrightarrow>
            \<not> (tEnd - tStart \<le> 450 \<and> \<bar>fst (last ps) - fst p\<bar> \<ge> 70
               \<and> \<bar>snd (last ps) - snd p\<bar> \<le> 90)"
    unfolding swipeGesture_eq [OF assms] by auto
  have z: "swipeGesture g p tStart [] tEnd = SnapBack"
    by (simp add: swipeGesture_def moves_def touchend_def touchstart_single)
  have d: "swipeDelta SwipeRight = - 1" "swipeDelta SwipeLeft = 1"
    by (simp_all add: swipeDelta_def)
  show ?thesis
    by (rule conjI [OF r conjI [OF l conjI [OF s conjI [OF z conjI [OF d(1) conjI [OF d(2)
          conjI [OF e1 conjI [OF e2 navTouch_commit]]]]]]]])
qed

theorem swipe_commit_rule_witness:
  "swipeGesture gestureInit (100, 100) 1000 [(60, 102), (20, 105)] 1200 = Commit SwipeLeft
   \<and> swipeGesture gestureInit (100, 100) 1000 [(60, 102), (20, 105)] 1600 = SnapBack
   \<and> swipeGesture gestureInit (100, 100) 1000 [(140, 98), (175, 95)] 1300 = Commit SwipeRight"
proof -
  have n: "[(60, 102), (20, 105)] \<noteq> ([] :: (rat \<times> rat) list)"
      "[(140, 98), (175, 95)] \<noteq> ([] :: (rat \<times> rat) list)"
    by simp_all
  note a = swipe_commit_rule [OF n(1), where g = gestureInit and p = "(100, 100)"
      and tStart = 1000 and tEnd = 1200 and x = 0 and y = 0 and q = "(0, 0)" and h = swipeNavInit]
  note b = swipe_commit_rule [OF n(1), where g = gestureInit and p = "(100, 100)"
      and tStart = 1000 and tEnd = 1600 and x = 0 and y = 0 and q = "(0, 0)" and h = swipeNavInit]
  note c = swipe_commit_rule [OF n(2), where g = gestureInit and p = "(100, 100)"
      and tStart = 1000 and tEnd = 1300 and x = 0 and y = 0 and q = "(0, 0)" and h = swipeNavInit]
  have x: "swipeGesture gestureInit (100, 100) 1000 [(60, 102), (20, 105)] 1200 = Commit SwipeLeft"
    using a [THEN conjunct2, THEN conjunct1] by simp
  have y: "swipeGesture gestureInit (100, 100) 1000 [(60, 102), (20, 105)] 1600 = SnapBack"
    using b [THEN conjunct2, THEN conjunct2, THEN conjunct1] by simp
  have z: "swipeGesture gestureInit (100, 100) 1000 [(140, 98), (175, 95)] 1300 = Commit SwipeRight"
    using c [THEN conjunct1] by simp
  from x y z show ?thesis
    by (intro conjI)
qed

theorem older_recogniser_ignores_time:
  "snd (navTouchend [(50, 105)] (navTouchstart [(100, 100)] swipeNavInit)) = Commit SwipeLeft
   \<and> snd (navTouchend [(20, 105)] (navTouchstart [(100, 100)] swipeNavInit)) = Commit SwipeLeft"
  by (simp add: navTouch_eq)

section \<open>The claim about the blocked swipe\<close>

text \<open>
  Claim C8: where the code stops. With today selected, a swipe to the next day in
  \<^verbatim>\<open>app.js\<close> returns from \<^verbatim>\<open>shiftSelectedDay\<close> at once: the page is what it was, with an
  empty status line and an idle button, whereas the date picker of the same file
  answers a future day with the message and the error state. In \<^verbatim>\<open>part_001\<close> the
  selected day stays and the status line stays empty as well.
\<close>

theorem blocked_swipe_gives_no_signal:
  "stepApp exampleClock (SwipedApp SwipeLeft) (initApp exampleClock None)
     = initApp exampleClock None
   \<and> selectedISO (initApp exampleClock None) = ''2024-03-01''
   \<and> statusText (initApp exampleClock None) = []
   \<and> saveButton (initApp exampleClock None) = Idle
   \<and> statusText (stepApp exampleClock (DatePicked ''2024-03-02'') (initApp exampleClock None))
       = ''Future dates blocked.''
   \<and> saveButton (stepApp exampleClock (DatePicked ''2024-03-02'') (initApp exampleClock None))
       = Error
   \<and> selectedISO (stepMass exampleClock (Swiped SwipeLeft) (initMass exampleClock None))
       = ''2024-03-01''
   \<and> statusText (stepMass exampleClock (Swiped SwipeLeft) (initMass exampleClock None)) = []"
proof -
  have f: "isFutureISODate exampleClock (shiftISO (todayISODate exampleClock) 1)"
    using isFuture_shift_today [OF exampleClock_plausible, of 1] by simp
  have a: "stepApp exampleClock (SwipedApp SwipeLeft) (initApp exampleClock None)
     = initApp exampleClock None"
    using f by (simp add: stepApp_def swipeDelta_def shiftSelectedDay_blocked)
  have b: "selectedISO (initApp exampleClock None) = ''2024-03-01''"
    by (simp add: exampleClock_today)
  have c: "statusText (stepApp exampleClock (DatePicked ''2024-03-02'') (initApp exampleClock None))
       = ''Future dates blocked.''"
      "saveButton (stepApp exampleClock (DatePicked ''2024-03-02'') (initApp exampleClock None))
       = Error"
    using example_future
    by (simp_all add: stepApp_def dateChanged_def setStatus_def setSaveButtonState_def
        renderDateLabel_def)
  have d: "selectedISO (stepMass exampleClock (Swiped SwipeLeft) (initMass exampleClock None))
       = ''2024-03-01''"
    using f by (simp add: stepMass_def commitSwipe_selected swipeDelta_def exampleClock_today)
  have e: "statusText (stepMass exampleClock (Swiped SwipeLeft) (initMass exampleClock None)) = []"
    by (simp add: stepMass_def commitSwipe_status initMass_page)
  note p = initApp_page [of exampleClock None]
  show ?thesis
    by (rule conjI [OF a conjI [OF b conjI [OF p [THEN conjunct1]
          conjI [OF p [THEN conjunct2, THEN conjunct1] conjI [OF c(1) conjI [OF c(2)
          conjI [OF d e]]]]]]])
qed

end
